theory Spec2Isabelle
  imports Main "HOL-Library.Char_ord" "HOL-Library.List_Lexorder"
begin

section \<open>Characters and string primitives\<close>

text \<open>
  A JavaScript string is a sequence of 16-bit code units.  The model keeps the code units
  below 256, one \<open>char\<close> each, so a \<open>string\<close> is a text of the Latin-1 range.  In that
  range the white space of \<open>\s\<close> and of \<open>trim\<close> is the blank, the controls U+0009 to U+000D
  and the no-break space U+00A0; the classes \<open>\d\<close>, \<open>\w\<close>, \<open>[A-Z]\<close> and \<open>[a-z]\<close> are the
  ASCII ones, as no pattern of the program has the \<open>u\<close> flag.
\<close>

definition isSpace :: "char \<Rightarrow> bool" where
  "isSpace c = (c \<in> set [CHR '' '', CHR 0x09, CHR 0x0A, CHR 0x0B, CHR 0x0C, CHR 0x0D, CHR 0xA0])"

definition isDigit :: "char \<Rightarrow> bool" where
  "isDigit c = (c \<in> set ''0123456789'')"

definition isUpper :: "char \<Rightarrow> bool" where
  "isUpper c = (c \<in> set ''ABCDEFGHIJKLMNOPQRSTUVWXYZ'')"

definition isLower :: "char \<Rightarrow> bool" where
  "isLower c = (c \<in> set ''abcdefghijklmnopqrstuvwxyz'')"

definition isWord :: "char \<Rightarrow> bool" where
  "isWord c = (isUpper c \<or> isLower c \<or> isDigit c \<or> c = CHR ''_'')"

text \<open>
  The letters with two cases below U+0100: the ASCII letters, and the Latin-1 letters
  U+00C0 to U+00DE and U+00E0 to U+00FE without the two signs U+00D7 and U+00F7.  The small
  letter is 32 above the capital.
\<close>

definition smallLetter :: "char \<Rightarrow> bool" where
  "smallLetter c =
     (let n = (of_char c :: nat)
      in (97 \<le> n \<and> n \<le> 122) \<or> (224 \<le> n \<and> n \<le> 254 \<and> n \<noteq> 247))"

definition capitalLetter :: "char \<Rightarrow> bool" where
  "capitalLetter c =
     (let n = (of_char c :: nat)
      in (65 \<le> n \<and> n \<le> 90) \<or> (192 \<le> n \<and> n \<le> 222 \<and> n \<noteq> 215))"

text \<open>
  \<open>String.prototype.toUpperCase\<close>, one code unit at a time.  The sharp s U+00DF becomes
  \<open>SS\<close>.  The capitals of the micro sign U+00B5 and of U+00FF are U+039C and U+0178, beyond
  the code units kept here: the model leaves these two as they are, and no property below
  is stated of a text in which one of them is put in upper case.
\<close>

definition upperOf :: "char \<Rightarrow> string" where
  "upperOf c =
     (if c = CHR 0xDF then ''SS''
      else if smallLetter c then [char_of (of_char c - (32 :: nat))]
      else [c])"

definition toUpperCase :: "string \<Rightarrow> string" where
  "toUpperCase s = concat (map upperOf s)"

text \<open>\<open>String.prototype.toLowerCase\<close>; below U+0100 every small letter is one code unit.\<close>

definition toLowerChar :: "char \<Rightarrow> char" where
  "toLowerChar c = (if capitalLetter c then char_of (of_char c + (32 :: nat)) else c)"

definition toLowerCase :: "string \<Rightarrow> string" where
  "toLowerCase s = map toLowerChar s"

text \<open>
  The canonical form by which the \<open>i\<close> flag compares a pattern character with an input
  character, as a code unit number: the capital when that is one code unit, the character
  itself otherwise.
\<close>

definition canonical :: "char \<Rightarrow> nat" where
  "canonical c =
     (if c = CHR 0xB5 then 0x39C
      else if c = CHR 0xFF then 0x178
      else if smallLetter c then of_char c - 32
      else of_char c)"

text \<open>\<open>String.prototype.trim\<close>: white space is dropped at both ends.\<close>

definition trim :: "string \<Rightarrow> string" where
  "trim s = rev (dropWhile isSpace (rev (dropWhile isSpace s)))"

definition startsWith :: "string \<Rightarrow> string \<Rightarrow> bool" where
  "startsWith p s = (take (length p) s = p)"

definition endsWith :: "string \<Rightarrow> string \<Rightarrow> bool" where
  "endsWith p s = (take (length p) (rev s) = rev p)"

fun includesStr :: "string \<Rightarrow> string \<Rightarrow> bool" where
  "includesStr sub [] = (sub = [])"
| "includesStr sub (c # s) = (startsWith sub (c # s) \<or> includesStr sub s)"

text \<open>\<open>Array.prototype.join\<close>.\<close>

fun join :: "string \<Rightarrow> string list \<Rightarrow> string" where
  "join sep [] = []"
| "join sep [x] = x"
| "join sep (x # y # xs) = x @ sep @ join sep (y # xs)"

text \<open>\<open>s.split(c)\<close> for a separator of one character.\<close>

fun splitChar :: "char \<Rightarrow> string \<Rightarrow> string list" where
  "splitChar d [] = [[]]"
| "splitChar d (c # s) =
     (case splitChar d s of
        [] \<Rightarrow> [[c]]
      | x # xs \<Rightarrow> if c = d then [] # x # xs else (c # x) # xs)"

section \<open>Regular expressions with backtracking\<close>

text \<open>
  The regular expressions of the program are kept as syntax trees and run by one matcher
  that follows the ECMAScript backtracking order: alternatives left to right, quantifiers
  greedy.  A match state holds the captures made so far, the character just before the
  current position (\<open>None\<close> at the start of the input) and the rest of the input.
  \<open>rx_match r st\<close> lists every way \<open>r\<close> can match at \<open>st\<close>, in the order in which a
  backtracking matcher tries them; the head of the list is the match JavaScript reports.
\<close>

datatype rx =
    Chr "char \<Rightarrow> bool"
  | Eps
  | Seq rx rx
  | Alt rx rx
  | Rep nat "nat option" rx
  | Bol
  | Eol
  | WordB
  | Grp nat rx

type_synonym mstate = "(nat \<times> string) list \<times> char option \<times> string"

fun rx_size :: "rx \<Rightarrow> nat" where
  "rx_size (Seq a b) = Suc (rx_size a + rx_size b)"
| "rx_size (Alt a b) = Suc (rx_size a + rx_size b)"
| "rx_size (Rep lo hi r) = Suc (rx_size r)"
| "rx_size (Grp n r) = Suc (rx_size r)"
| "rx_size _ = 0"

definition wordBefore :: "char option \<Rightarrow> bool" where
  "wordBefore p = (case p of None \<Rightarrow> False | Some c \<Rightarrow> isWord c)"

definition wordAfter :: "string \<Rightarrow> bool" where
  "wordAfter s = (case s of [] \<Rightarrow> False | c # _ \<Rightarrow> isWord c)"

text \<open>
  A repetition tries one more round of its body first and the exit second (greedy).  A
  round has to consume input; every repeated body in this program does.
\<close>

function rx_match :: "rx \<Rightarrow> mstate \<Rightarrow> mstate list" where
  "rx_match (Chr P) (cs, p, s) =
     (case s of [] \<Rightarrow> [] | c # s' \<Rightarrow> if P c then [(cs, Some c, s')] else [])"
| "rx_match Eps st = [st]"
| "rx_match (Seq a b) st = concat (map (rx_match b) (rx_match a st))"
| "rx_match (Alt a b) st = rx_match a st @ rx_match b st"
| "rx_match (Rep lo hi r) (cs, p, s) =
     (if hi = Some 0 then [(cs, p, s)]
      else concat (map (rx_match (Rep (lo - 1) (map_option (\<lambda>h. h - 1) hi) r))
                       (filter (\<lambda>st'. length (snd (snd st')) < length s)
                               (rx_match r (cs, p, s))))
           @ (if lo = 0 then [(cs, p, s)] else []))"
| "rx_match Bol (cs, p, s) = (if p = None then [(cs, p, s)] else [])"
| "rx_match Eol (cs, p, s) = (if s = [] then [(cs, p, s)] else [])"
| "rx_match WordB (cs, p, s) = (if wordBefore p \<noteq> wordAfter s then [(cs, p, s)] else [])"
| "rx_match (Grp n r) (cs, p, s) =
     map (\<lambda>st'. case st' of (cs', p', s') \<Rightarrow> ((n, take (length s - length s') s) # cs', p', s'))
         (rx_match r (cs, p, s))"
  by pat_completeness auto
termination
  by (relation "inv_image (less_than <*lex*> less_than)
                  (\<lambda>(r, st). (rx_size r, length (snd (snd st))))")
     auto

text \<open>The match JavaScript reports at a fixed start: the head of the list.\<close>

definition rx_first :: "rx \<Rightarrow> char option \<Rightarrow> string \<Rightarrow> mstate option" where
  "rx_first r p s = (case rx_match r ([], p, s) of [] \<Rightarrow> None | st # _ \<Rightarrow> Some st)"

text \<open>
  \<open>RegExp.prototype.exec\<close> from a position: the start moves right until a match is
  found.  The result is the text skipped, the text matched, the captures, and the context
  and input left after the match.
\<close>

type_synonym found = "string \<times> string \<times> (nat \<times> string) list \<times> char option \<times> string"

fun rx_search :: "rx \<Rightarrow> char option \<Rightarrow> string \<Rightarrow> found option" where
  "rx_search r p [] =
     (case rx_first r p [] of
        None \<Rightarrow> None
      | Some (cs, p', s') \<Rightarrow> Some ([], [], cs, p', s'))"
| "rx_search r p (c # s) =
     (case rx_first r p (c # s) of
        Some (cs, p', s') \<Rightarrow> Some ([], take (Suc (length s) - length s') (c # s), cs, p', s')
      | None \<Rightarrow>
          (case rx_search r (Some c) s of
             None \<Rightarrow> None
           | Some (pre, m, cs, p', s') \<Rightarrow> Some (c # pre, m, cs, p', s')))"

text \<open>\<open>re.test(s)\<close>.\<close>

definition rx_test :: "rx \<Rightarrow> string \<Rightarrow> bool" where
  "rx_test r s = (rx_search r None s \<noteq> None)"

text \<open>A capture group of a match; \<open>None\<close> is JavaScript's \<open>undefined\<close>.\<close>

definition grp :: "(nat \<times> string) list \<Rightarrow> nat \<Rightarrow> string" where
  "grp cs n = (case map_of cs n of None \<Rightarrow> [] | Some g \<Rightarrow> g)"

text \<open>
  \<open>s.replace(re, f)\<close> for a global \<open>re\<close>: every match, left to right, is replaced by
  what the callback returns for the matched text and its captures.  After an empty match
  the search moves one character on.
\<close>

function rx_replace_all ::
  "rx \<Rightarrow> (string \<Rightarrow> (nat \<times> string) list \<Rightarrow> string) \<Rightarrow> char option \<Rightarrow> string \<Rightarrow> string" where
  "rx_replace_all r f p s =
     (case rx_first r p s of
        Some (cs, p', s') \<Rightarrow>
          if length s' < length s
          then f (take (length s - length s') s) cs @ rx_replace_all r f p' s'
          else (case s of [] \<Rightarrow> f [] cs | c # t \<Rightarrow> f [] cs @ c # rx_replace_all r f (Some c) t)
      | None \<Rightarrow> (case s of [] \<Rightarrow> [] | c # t \<Rightarrow> c # rx_replace_all r f (Some c) t))"
  by pat_completeness auto
termination
  by (relation "measure (\<lambda>(r, f, p, s). length s)") auto

text \<open>\<open>s.replace(re, f)\<close> for a \<open>re\<close> without the global flag: the first match only.\<close>

definition rx_replace_first ::
  "rx \<Rightarrow> (string \<Rightarrow> (nat \<times> string) list \<Rightarrow> string) \<Rightarrow> string \<Rightarrow> string" where
  "rx_replace_first r f s =
     (case rx_search r None s of
        None \<Rightarrow> s
      | Some (pre, m, cs, p', s') \<Rightarrow> pre @ f m cs @ s')"

text \<open>
  \<open>s.split(re)\<close> for a \<open>re\<close> without capture groups whose matches are never empty (the
  case of every pattern the program splits on): the pieces between the matches.
\<close>

function rx_split_go :: "rx \<Rightarrow> char option \<Rightarrow> string \<Rightarrow> string \<Rightarrow> string list" where
  "rx_split_go r p cur s =
     (case s of
        [] \<Rightarrow> [cur]
      | c # t \<Rightarrow>
          (case rx_first r p s of
             Some (cs, p', s') \<Rightarrow>
               if length s' < length s then cur # rx_split_go r p' [] s'
               else rx_split_go r (Some c) (cur @ [c]) t
           | None \<Rightarrow> rx_split_go r (Some c) (cur @ [c]) t))"
  by pat_completeness auto
termination
  by (relation "measure (\<lambda>(r, p, cur, s). length s)") auto

definition rx_split :: "rx \<Rightarrow> string \<Rightarrow> string list" where
  "rx_split r s =
     (if s = [] then (if rx_first r None [] = None then [[]] else [])
      else rx_split_go r None [] s)"

subsection \<open>Shorthands for writing the patterns\<close>

definition Lit :: "char \<Rightarrow> rx" where
  "Lit c = Chr (\<lambda>x. x = c)"

text \<open>A literal under the \<open>i\<close> flag.\<close>

definition LitI :: "char \<Rightarrow> rx" where
  "LitI c = Chr (\<lambda>x. canonical x = canonical c)"

definition Star :: "rx \<Rightarrow> rx" where
  "Star r = Rep 0 None r"

definition Plus :: "rx \<Rightarrow> rx" where
  "Plus r = Rep 1 None r"

definition Opt :: "rx \<Rightarrow> rx" where
  "Opt r = Rep 0 (Some 1) r"

fun Seqs :: "rx list \<Rightarrow> rx" where
  "Seqs [] = Eps"
| "Seqs [r] = r"
| "Seqs (r # rs) = Seq r (Seqs rs)"

section \<open>Options\<close>

text \<open>The three check boxes the formatter reads.\<close>

record options =
  noDots :: bool
  tryExtractDoi :: bool
  enforceDoiUrl :: bool

section \<open>Author normalization\<close>

text \<open>\<open>/\s+/\<close>, \<open>/\./\<close>, \<open>/[.,]/\<close> and \<open>/\s+and\s+/i\<close>.\<close>

definition rx_spaces :: rx where
  "rx_spaces = Plus (Chr isSpace)"

definition rx_dot :: rx where
  "rx_dot = Lit CHR ''.''"

definition rx_dot_comma :: rx where
  "rx_dot_comma = Chr (\<lambda>c. c = CHR ''.'' \<or> c = CHR '','')"

definition rx_and :: rx where
  "rx_and = Seqs [Plus (Chr isSpace), LitI CHR ''a'', LitI CHR ''n'', LitI CHR ''d'',
                  Plus (Chr isSpace)]"

definition nonEmpty :: "string \<Rightarrow> bool" where
  "nonEmpty s = (s \<noteq> [])"

definition cleanToken :: "string \<Rightarrow> string" where
  "cleanToken t = trim (rx_replace_all rx_dot_comma (\<lambda>_ _. []) None t)"

text \<open>\<open>p[0].toUpperCase()\<close>, for a \<open>p\<close> that is not empty.\<close>

definition firstUpper :: "string \<Rightarrow> string" where
  "firstUpper p = toUpperCase (take 1 p)"

definition makeInitialsFromGiven :: "string \<Rightarrow> string" where
  "makeInitialsFromGiven given =
     (let parts = filter nonEmpty (map cleanToken
                    (rx_split rx_spaces (rx_replace_all rx_dot (\<lambda>_ _. '' '') None given)))
      in join '' '' (map firstUpper parts))"

text \<open>\<open>s.replace(/\s+/g, " ")\<close>.\<close>

definition collapseSpaces :: "string \<Rightarrow> string" where
  "collapseSpaces s = rx_replace_all rx_spaces (\<lambda>_ _. '' '') None s"

definition finishName :: "options \<Rightarrow> string \<Rightarrow> string \<Rightarrow> string" where
  "finishName opts initials family =
     (let out = collapseSpaces (trim (initials @ '' '' @ family))
      in if noDots opts then rx_replace_all rx_dot (\<lambda>_ _. []) None out else out)"

text \<open>
  With no token left (a name made of periods only) \<open>tokens[tokens.length - 1]\<close> is
  \<open>undefined\<close>, which the template literal prints as the text \<open>undefined\<close>.
\<close>

definition normalizeOneAuthorStrict :: "options \<Rightarrow> string \<Rightarrow> string" where
  "normalizeOneAuthorStrict opts rawName =
     (let n0 = trim rawName in
      if n0 = [] then []
      else
        let n = collapseSpaces n0 in
        if startsWith ''{'' n \<and> endsWith ''}'' n then n
        else if includesStr '','' n then
          (let pieces = filter nonEmpty (map trim (splitChar CHR '','' n));
               family = cleanToken (case pieces of [] \<Rightarrow> [] | x # _ \<Rightarrow> x);
               given = join '' '' (drop 1 pieces);
               initials = makeInitialsFromGiven given
           in finishName opts initials family)
        else
          (let tokens = filter nonEmpty (map cleanToken
                          (rx_split rx_spaces (rx_replace_all rx_dot (\<lambda>_ _. '' '') None n)))
           in case tokens of
                [t] \<Rightarrow> t
              | _ \<Rightarrow>
                 (let family = (if tokens = [] then ''undefined'' else last tokens);
                      givenTokens = butlast tokens;
                      initials = join '' '' (filter nonEmpty
                                   (map (\<lambda>gt. if gt \<noteq> [] then firstUpper gt else []) givenTokens))
                  in finishName opts initials family)))"

definition normalizeAuthorsStrict :: "options \<Rightarrow> string \<Rightarrow> string" where
  "normalizeAuthorsStrict opts authorField =
     (let authors = filter nonEmpty (map trim (rx_split rx_and authorField))
      in join '' and '' (map (normalizeOneAuthorStrict opts) authors))"

section \<open>The earlier author normalizer\<close>

text \<open>
  \<open>src/app.js\<close> holds an earlier form of the normalizer: no rule for names in braces, the
  family name taken as it is, and the periods removed from the whole list at the end.
\<close>

definition initialsFromGiven :: "string \<Rightarrow> string" where
  "initialsFromGiven given =
     (let parts = filter nonEmpty (rx_split rx_spaces (trim given))
      in join '' '' (map firstUpper parts))"

definition dotsToSpaces :: "string \<Rightarrow> string" where
  "dotsToSpaces s = rx_replace_all rx_dot (\<lambda>_ _. '' '') None s"

definition normalizeOneAuthor :: "string \<Rightarrow> string" where
  "normalizeOneAuthor name =
     (let n0 = trim name in
      if n0 = [] then []
      else
        let n = collapseSpaces n0 in
        if includesStr '','' n then
          (let pieces = map trim (splitChar CHR '','' n);
               family = (case pieces of [] \<Rightarrow> ''undefined'' | x # _ \<Rightarrow> x);
               given = (case pieces of _ # g # _ \<Rightarrow> g | _ \<Rightarrow> []);
               initials = initialsFromGiven (dotsToSpaces given)
           in collapseSpaces (trim (initials @ '' '' @ family)))
        else
          (let parts = filter nonEmpty (splitChar CHR '' '' n)
           in case parts of
                [t] \<Rightarrow> t
              | _ \<Rightarrow>
                 (let family = (if parts = [] then ''undefined'' else last parts);
                      given = join '' '' (butlast parts);
                      initials = initialsFromGiven (dotsToSpaces given)
                  in collapseSpaces (trim (initials @ '' '' @ family)))))"

definition normalizeAuthors :: "options \<Rightarrow> string \<Rightarrow> string" where
  "normalizeAuthors opts authorField =
     (let authors = filter nonEmpty (map trim (rx_split rx_and authorField));
          out = join '' and '' (map normalizeOneAuthor authors)
      in if noDots opts then rx_replace_all rx_dot (\<lambda>_ _. []) None out else out)"

section \<open>Title materials\<close>

text \<open>\<open>/\b([A-Z][a-z]?\d*){2,}\b/\<close>, \<open>/\d/\<close> and \<open>/([A-Z][a-z]?)(\d+)/\<close>.\<close>

definition rx_formula :: rx where
  "rx_formula =
     Seqs [WordB,
           Rep 2 None (Grp 1 (Seqs [Chr isUpper, Opt (Chr isLower), Star (Chr isDigit)])),
           WordB]"

definition rx_digit :: rx where
  "rx_digit = Chr isDigit"

definition rx_element_num :: rx where
  "rx_element_num =
     Seq (Grp 1 (Seq (Chr isUpper) (Opt (Chr isLower)))) (Grp 2 (Plus (Chr isDigit)))"

definition subscriptMarker :: string where
  "subscriptMarker = ''$_''"

definition mathrmMarker :: string where
  "mathrmMarker = CHR 0x5C # ''mathrm''"

definition latexifyToken :: "string \<Rightarrow> string" where
  "latexifyToken token =
     (if \<not> rx_test rx_digit token then token
      else
        let withSubs = rx_replace_all rx_element_num
                         (\<lambda>_ cs. grp cs 1 @ ''$_'' @ grp cs 2 @ ''$'') None token
        in ''{'' @ withSubs @ ''}'')"

definition latexifyMaterialsInTitle :: "string \<Rightarrow> string" where
  "latexifyMaterialsInTitle title =
     (if title = [] then title
      else if includesStr subscriptMarker title \<or> includesStr mathrmMarker title then title
      else rx_replace_all rx_formula (\<lambda>token _. latexifyToken token) None title)"

section \<open>DOI extraction and URL enforcement\<close>

text \<open>\<open>/10\.\d{4,9}\/[-._;()/:A-Z0-9]+/i\<close>; under the \<open>i\<close> flag the class holds the lower-case letters too.\<close>

definition doiSuffixChar :: "char \<Rightarrow> bool" where
  "doiSuffixChar c = (c \<in> set ''-._;()/:'' \<or> isUpper c \<or> isLower c \<or> isDigit c)"

definition rx_doi :: rx where
  "rx_doi =
     Seqs [Lit CHR ''1'', Lit CHR ''0'', Lit CHR ''.'', Rep 4 (Some 9) (Chr isDigit),
           Lit CHR ''/'', Plus (Chr doiSuffixChar)]"

definition extractDoiFromText :: "string \<Rightarrow> string" where
  "extractDoiFromText text =
     (if text = [] then []
      else case rx_search rx_doi None (trim text) of
             None \<Rightarrow> []
           | Some (pre, m, rest) \<Rightarrow> m)"

definition doiUrl :: "string \<Rightarrow> string" where
  "doiUrl doi = ''https://doi.org/'' @ doi"

section \<open>Entries\<close>

text \<open>
  The field object is kept as an association list.  A name is looked up at its first
  occurrence and assigned there, and the own keys are the names without repetition, so
  every list stands for one object.
\<close>

type_synonym fieldmap = "(string \<times> string) list"

record entry =
  type :: string
  key :: string
  fields_obj :: fieldmap

definition getField :: "fieldmap \<Rightarrow> string \<Rightarrow> string option" where
  "getField fs f = map_of fs f"

fun setField :: "string \<Rightarrow> string \<Rightarrow> fieldmap \<Rightarrow> fieldmap" where
  "setField f v [] = [(f, v)]"
| "setField f v ((g, w) # fs) = (if g = f then (f, v) # fs else (g, w) # setField f v fs)"

text \<open>\<open>Object.keys\<close>; the only use sorts the result.\<close>

definition objectKeys :: "fieldmap \<Rightarrow> string list" where
  "objectKeys fs = remdups (map fst fs)"

text \<open>The test \<open>if (fields.f)\<close>: the field is there and is not the empty string.\<close>

definition truthy :: "fieldmap \<Rightarrow> string \<Rightarrow> bool" where
  "truthy fs f = (case getField fs f of None \<Rightarrow> False | Some v \<Rightarrow> v \<noteq> [])"

text \<open>A field read inside a template literal.\<close>

definition fieldText :: "fieldmap \<Rightarrow> string \<Rightarrow> string" where
  "fieldText fs f = (case getField fs f of None \<Rightarrow> ''undefined'' | Some v \<Rightarrow> v)"

section \<open>Parsing one entry\<close>

text \<open>
  \<open>/^@(\w+)\s*\{\s*([^,]+)\s*,/s\<close>, \<open>/\}\s*$/s\<close> and
  \<open>/(\w+)\s*=\s*(\{(?:[^{}]|\{[^{}]*\})*\}|"[^"]*"|[^,]+)\s*,?/gs\<close>.
\<close>

definition notComma :: "char \<Rightarrow> bool" where
  "notComma c = (c \<noteq> CHR '','')"

definition notBrace :: "char \<Rightarrow> bool" where
  "notBrace c = (c \<noteq> CHR ''{'' \<and> c \<noteq> CHR ''}'')"

definition notQuote :: "char \<Rightarrow> bool" where
  "notQuote c = (c \<noteq> CHR 0x22)"

definition rx_head :: rx where
  "rx_head =
     Seqs [Bol, Lit CHR ''@'', Grp 1 (Plus (Chr isWord)), Star (Chr isSpace), Lit CHR ''{'',
           Star (Chr isSpace), Grp 2 (Plus (Chr notComma)), Star (Chr isSpace), Lit CHR '','']"

definition rx_tail :: rx where
  "rx_tail = Seqs [Lit CHR ''}'', Star (Chr isSpace), Eol]"

definition rx_value :: rx where
  "rx_value =
     Alt (Seqs [Lit CHR ''{'',
                Star (Alt (Chr notBrace) (Seqs [Lit CHR ''{'', Star (Chr notBrace), Lit CHR ''}''])),
                Lit CHR ''}''])
         (Alt (Seqs [Lit CHR 0x22, Star (Chr notQuote), Lit CHR 0x22])
              (Plus (Chr notComma)))"

definition rx_field :: rx where
  "rx_field =
     Seqs [Grp 1 (Plus (Chr isWord)), Star (Chr isSpace), Lit CHR ''='', Star (Chr isSpace),
           Grp 2 rx_value, Star (Chr isSpace), Opt (Lit CHR '','')]"

text \<open>\<open>value.slice(1, -1)\<close>.\<close>

definition sliceInner :: "string \<Rightarrow> string" where
  "sliceInner v = butlast (drop 1 v)"

definition unwrapValue :: "string \<Rightarrow> string" where
  "unwrapValue raw =
     (let value = trim raw;
          value = (if startsWith ''{'' value \<and> endsWith ''}'' value
                   then trim (sliceInner value) else value);
          value = (if startsWith [CHR 0x22] value \<and> endsWith [CHR 0x22] value
                   then trim (sliceInner value) else value)
      in value)"

text \<open>
  \<open>fields[name] = value\<close> on an object literal: the name \<open>__proto__\<close> reaches the
  prototype setter, which ignores a string, so no own field is made.
\<close>

definition assignField :: "string \<Rightarrow> string \<Rightarrow> fieldmap \<Rightarrow> fieldmap" where
  "assignField name v fs = (if name = ''__proto__'' then fs else setField name v fs)"

text \<open>
  The \<open>exec\<close> loop.  Every match of the field pattern holds a name and an equals sign,
  so the position always moves on; the last branch is never taken.
\<close>

function parseFields :: "char option \<Rightarrow> string \<Rightarrow> fieldmap \<Rightarrow> fieldmap" where
  "parseFields p body fs =
     (case rx_search rx_field p body of
        None \<Rightarrow> fs
      | Some (pre, m, cs, p', s') \<Rightarrow>
          if length s' < length body
          then parseFields p' s' (assignField (toLowerCase (grp cs 1)) (unwrapValue (grp cs 2)) fs)
          else fs)"
  by pat_completeness auto
termination
  by (relation "measure (\<lambda>(p, body, fs). length body)") auto

definition parseEntry :: "string \<Rightarrow> entry option" where
  "parseEntry entryText =
     (case rx_search rx_head None entryText of
        None \<Rightarrow> None
      | Some (pre, m, cs, p', rest) \<Rightarrow>
          let body = trim (rx_replace_first rx_tail (\<lambda>_ _. []) rest)
          in Some \<lparr>type = toLowerCase (grp cs 1), key = trim (grp cs 2),
                   fields_obj = parseFields None body []\<rparr>)"

section \<open>Formatting one entry\<close>

definition stepAuthor :: "options \<Rightarrow> fieldmap \<Rightarrow> fieldmap" where
  "stepAuthor opts fs =
     (if truthy fs ''author''
      then setField ''author'' (normalizeAuthorsStrict opts (fieldText fs ''author'')) fs
      else fs)"

definition stepTitle :: "fieldmap \<Rightarrow> fieldmap" where
  "stepTitle fs =
     (if truthy fs ''title''
      then setField ''title'' (latexifyMaterialsInTitle (fieldText fs ''title'')) fs
      else fs)"

definition stepExtract :: "options \<Rightarrow> fieldmap \<Rightarrow> fieldmap" where
  "stepExtract opts fs =
     (if tryExtractDoi opts \<and> \<not> truthy fs ''doi'' \<and> truthy fs ''url''
      then (let d = extractDoiFromText (fieldText fs ''url'')
            in if d \<noteq> [] then setField ''doi'' d fs else fs)
      else fs)"

definition stepEnforce :: "options \<Rightarrow> fieldmap \<Rightarrow> fieldmap" where
  "stepEnforce opts fs =
     (if enforceDoiUrl opts \<and> truthy fs ''doi''
      then (let d = trim (fieldText fs ''doi'')
            in setField ''url'' (doiUrl d) (setField ''doi'' d fs))
      else fs)"

text \<open>The four in-place updates of \<open>formatEntry\<close>, in its order.\<close>

definition normalizeFields :: "options \<Rightarrow> fieldmap \<Rightarrow> fieldmap" where
  "normalizeFields opts fs = stepEnforce opts (stepExtract opts (stepTitle (stepAuthor opts fs)))"

definition preferred :: "string list" where
  "preferred = [''author'', ''title'', ''journal'', ''booktitle'', ''year'', ''volume'',
                ''number'', ''pages'', ''doi'', ''url'']"

definition fieldLine :: "fieldmap \<Rightarrow> string \<Rightarrow> string" where
  "fieldLine fs f = ''  '' @ f @ '' = {'' @ fieldText fs f @ ''}''"

definition extra :: "fieldmap \<Rightarrow> string list" where
  "extra fs = sort (filter (\<lambda>f. f \<notin> set preferred) (objectKeys fs))"

definition entryLines :: "fieldmap \<Rightarrow> string list" where
  "entryLines fs = map (fieldLine fs) (filter (truthy fs) preferred) @ map (fieldLine fs) (extra fs)"

definition NL :: string where
  "NL = [CHR 0x0A]"

definition serialize :: "string \<Rightarrow> string \<Rightarrow> fieldmap \<Rightarrow> string" where
  "serialize ty k fs =
     ''@'' @ ty @ ''{'' @ k @ '','' @ NL @ join ('','' @ NL) (entryLines fs) @ NL @ ''}'' @ NL"

definition formatEntry :: "options \<Rightarrow> entry \<Rightarrow> string" where
  "formatEntry opts e = serialize (type e) (key e) (normalizeFields opts (fields_obj e))"

text \<open>
  \<open>formatEntry\<close> of \<open>src/app.js\<close>: the earlier author normalizer, no title step, then the
  same extraction, enforcement and lines.
\<close>

definition stepAuthorEarlier :: "options \<Rightarrow> fieldmap \<Rightarrow> fieldmap" where
  "stepAuthorEarlier opts fs =
     (if truthy fs ''author''
      then setField ''author'' (normalizeAuthors opts (fieldText fs ''author'')) fs
      else fs)"

definition normalizeFieldsEarlier :: "options \<Rightarrow> fieldmap \<Rightarrow> fieldmap" where
  "normalizeFieldsEarlier opts fs = stepEnforce opts (stepExtract opts (stepAuthorEarlier opts fs))"

definition formatEntryEarlier :: "options \<Rightarrow> entry \<Rightarrow> string" where
  "formatEntryEarlier opts e =
     serialize (type e) (key e) (normalizeFieldsEarlier opts (fields_obj e))"

section \<open>From a Crossref record to an entry\<close>

text \<open>
  The part of a Crossref message the adapter reads, typed as the Crossref schema types it.
  A property that is absent or \<open>null\<close> is \<open>None\<close>.  The adapter passes the date part
  \<open>issued["date-parts"][0][0]\<close>, the volume, the issue and the page range through \<open>String\<close>
  and does nothing else with them, so each of the four is given by the text that \<open>String\<close>
  makes of it.
\<close>

record cr_author =
  given :: "string option"
  family :: "string option"

record cr_message =
  issued :: "string option"
  title :: "string list option"
  container_title :: "string list option"
  volume :: "string option"
  issue :: "string option"
  page :: "string option"
  DOI :: "string option"
  URL :: "string option"
  author :: "cr_author list option"

text \<open>\<open>x ?? ""\<close> and \<open>x ? x.trim() : ""\<close>.\<close>

definition orEmpty :: "string option \<Rightarrow> string" where
  "orEmpty x = (case x of None \<Rightarrow> [] | Some v \<Rightarrow> v)"

definition trimmedOrEmpty :: "string option \<Rightarrow> string" where
  "trimmedOrEmpty x = (case x of None \<Rightarrow> [] | Some v \<Rightarrow> if v \<noteq> [] then trim v else [])"

text \<open>\<open>(xs && xs[0]) ? xs[0] : ""\<close>.\<close>

definition firstOrEmpty :: "string list option \<Rightarrow> string" where
  "firstOrEmpty xs = (case xs of Some (x # _) \<Rightarrow> x | _ \<Rightarrow> [])"

text \<open>\<open>/[^A-Za-z0-9]/\<close>.\<close>

definition rx_not_alnum :: rx where
  "rx_not_alnum = Chr (\<lambda>c. \<not> (isUpper c \<or> isLower c \<or> isDigit c))"

definition authorName :: "cr_author \<Rightarrow> string" where
  "authorName a =
     trim (join '' '' (filter nonEmpty [trimmedOrEmpty (given a), trimmedOrEmpty (family a)]))"

definition crossrefToBibEntry :: "cr_message \<Rightarrow> entry" where
  "crossrefToBibEntry msg =
     (let year = orEmpty (issued msg);
          title = firstOrEmpty (title msg);
          journal = firstOrEmpty (container_title msg);
          volume = orEmpty (volume msg);
          number = orEmpty (issue msg);
          pages = orEmpty (page msg);
          doi = orEmpty (DOI msg);
          url = (if doi \<noteq> [] then ''https://doi.org/'' @ doi else orEmpty (URL msg));
          authors = join '' and ''
                      (filter nonEmpty (map authorName (case author msg of None \<Rightarrow> [] | Some as \<Rightarrow> as)));
          firstFamily = (case author msg of
                           Some (a # _) \<Rightarrow>
                             (case family a of
                                Some f \<Rightarrow> if f \<noteq> [] then f else ''ref''
                              | None \<Rightarrow> ''ref'')
                         | _ \<Rightarrow> ''ref'');
          firstWord = (if title \<noteq> []
                       then rx_replace_all rx_not_alnum (\<lambda>_ _. []) None
                              (case rx_split rx_spaces title of [] \<Rightarrow> ''undefined'' | w # _ \<Rightarrow> w)
                       else ''paper'');
          key = rx_replace_all rx_spaces (\<lambda>_ _. []) None (firstFamily @ year @ firstWord)
      in \<lparr>type = ''article'', key = key,
          fields_obj = [(''author'', authors), (''title'', title), (''journal'', journal),
                        (''year'', year), (''volume'', volume), (''number'', number),
                        (''pages'', pages), (''doi'', doi), (''url'', url)]\<rparr>)"

section \<open>Batch conversion of identifiers\<close>

text \<open>
  The remote lookup is a parameter.  For the number of the request within the run and the
  identifier asked for, it gives the message, or the text of the error thrown inside the
  \<open>try\<close> block: by the request, by a status that is not a success, by the decoding of the
  answer, or by the adapter on an answer that is not typed as a Crossref message.  The
  loop awaits one identifier after the other; a failure is caught inside the loop body.
\<close>

type_synonym lookup = "nat \<Rightarrow> string \<Rightarrow> string + cr_message"

text \<open>
  \<open>String(n)\<close> for a counter \<open>n\<close>.  A counter of the loop is a whole number no larger than
  the number of identifiers, which is below the length of the input text; that length is
  below \<open>2^53\<close> for a JavaScript string, and there \<open>String\<close> prints a whole number in full.
\<close>

fun decimal :: "nat \<Rightarrow> string" where
  "decimal n =
     (if n < 10 then [''0123456789'' ! n]
      else decimal (n div 10) @ [''0123456789'' ! (n mod 10)])"

text \<open>\<open>/\r?\n/\<close>.\<close>

definition rx_newline :: rx where
  "rx_newline = Seq (Opt (Lit CHR 0x0D)) (Lit CHR 0x0A)"

text \<open>The \<open>for\<close> loop; \<open>n\<close> counts the requests made so far.\<close>

fun convertLoop ::
  "options \<Rightarrow> lookup \<Rightarrow> nat \<Rightarrow> string list \<Rightarrow> string \<times> nat \<times> nat \<Rightarrow> string \<times> nat \<times> nat" where
  "convertLoop opts fetchCrossrefJson n [] acc = acc"
| "convertLoop opts fetchCrossrefJson n (doi # dois) (combined, ok, failed) =
     (case fetchCrossrefJson n doi of
        Inr msg \<Rightarrow>
          convertLoop opts fetchCrossrefJson (Suc n) dois
            (combined @ formatEntry opts (crossrefToBibEntry msg) @ NL, ok + 1, failed)
      | Inl message \<Rightarrow>
          convertLoop opts fetchCrossrefJson (Suc n) dois
            (combined @ ''% Failed DOI: '' @ doi @ '' ('' @ message @ '')'' @ NL, ok, failed + 1))"

text \<open>The two things the handler leaves behind: the output area and the status line.\<close>

record ui =
  doiOut :: string
  status :: string

definition identifiers :: "string \<Rightarrow> string list" where
  "identifiers doiIn = filter nonEmpty (map trim (rx_split rx_newline doiIn))"

definition convertDoi :: "options \<Rightarrow> lookup \<Rightarrow> string \<Rightarrow> ui" where
  "convertDoi opts fetchCrossrefJson doiIn =
     (let dois = identifiers doiIn in
      if dois = [] then \<lparr>doiOut = [], status = ''Paste at least one DOI.''\<rparr>
      else
        case convertLoop opts fetchCrossrefJson 0 dois ([], 0, 0) of
          (combined, ok, failed) \<Rightarrow>
            \<lparr>doiOut = trim combined @ NL,
             status = ''Converted '' @ decimal ok @ '' DOI(s). Failed: '' @ decimal failed @ ''.''\<rparr>)"

text \<open>
  The handler of \<open>src/app.js\<close>.  Its lookup gives the BibTeX text of the identifier, or the
  text of the error thrown by the request.  The text is parsed; when the parse fails an
  error is thrown inside the same \<open>try\<close> block; a parsed entry without a \<open>doi\<close> value gets
  the identifier as its \<open>doi\<close> field.
\<close>

type_synonym lookupText = "nat \<Rightarrow> string \<Rightarrow> string + string"

fun convertLoopEarlier ::
  "options \<Rightarrow> lookupText \<Rightarrow> nat \<Rightarrow> string list \<Rightarrow> string \<times> nat \<times> nat \<Rightarrow> string \<times> nat \<times> nat" where
  "convertLoopEarlier opts fetchBibtexFromCrossref n [] acc = acc"
| "convertLoopEarlier opts fetchBibtexFromCrossref n (doi # dois) (combined, ok, failed) =
     (case (case fetchBibtexFromCrossref n doi of
              Inl message \<Rightarrow> Inl message
            | Inr rawBib \<Rightarrow>
                (case parseEntry rawBib of
                   None \<Rightarrow> Inl ''Received unparseable BibTeX.''
                 | Some parsed \<Rightarrow>
                     Inr (if \<not> truthy (fields_obj parsed) ''doi''
                          then parsed\<lparr>fields_obj := setField ''doi'' doi (fields_obj parsed)\<rparr>
                          else parsed))) of
        Inr parsed \<Rightarrow>
          convertLoopEarlier opts fetchBibtexFromCrossref (Suc n) dois
            (combined @ formatEntryEarlier opts parsed @ NL, ok + 1, failed)
      | Inl message \<Rightarrow>
          convertLoopEarlier opts fetchBibtexFromCrossref (Suc n) dois
            (combined @ ''% Failed DOI: '' @ doi @ '' ('' @ message @ '')'' @ NL, ok, failed + 1))"

definition convertDoiEarlier :: "options \<Rightarrow> lookupText \<Rightarrow> string \<Rightarrow> ui" where
  "convertDoiEarlier opts fetchBibtexFromCrossref doiIn =
     (let dois = identifiers doiIn in
      if dois = [] then \<lparr>doiOut = [], status = ''Paste at least one DOI.''\<rparr>
      else
        case convertLoopEarlier opts fetchBibtexFromCrossref 0 dois ([], 0, 0) of
          (combined, ok, failed) \<Rightarrow>
            \<lparr>doiOut = trim combined @ NL,
             status = ''Converted '' @ decimal ok @ '' DOI(s). Failed: '' @ decimal failed @ ''.''\<rparr>)"

section \<open>Notions used to state the properties\<close>

text \<open>The field names that get a line, in the order of their lines.\<close>

definition emittedNames :: "fieldmap \<Rightarrow> string list" where
  "emittedNames fs = filter (truthy fs) preferred @ extra fs"

text \<open>
  The lines as the specification words them: one line for each field that is present,
  the preferred ones first.
\<close>

definition specLines :: "fieldmap \<Rightarrow> string list" where
  "specLines fs =
     map (fieldLine fs) (filter (\<lambda>f. getField fs f \<noteq> None) preferred)
     @ map (fieldLine fs) (extra fs)"

text \<open>
  A name fully wrapped in one top-level brace pair: it opens with a brace, and that brace
  is closed by the last character and not before.
\<close>

fun closesAtEnd :: "nat \<Rightarrow> string \<Rightarrow> bool" where
  "closesAtEnd d [] = False"
| "closesAtEnd d (c # s) =
     (if c = CHR ''{'' then closesAtEnd (Suc d) s
      else if c = CHR ''}'' then (if d = 1 then s = [] else 1 < d \<and> closesAtEnd (d - 1) s)
      else closesAtEnd d s)"

definition fullyWrapped :: "string \<Rightarrow> bool" where
  "fullyWrapped n = (case n of [] \<Rightarrow> False | c # s \<Rightarrow> c = CHR ''{'' \<and> closesAtEnd 1 s)"



text \<open>The identifiers of a run, each with the number of its request.\<close>

definition numbered :: "string list \<Rightarrow> (nat \<times> string) list" where
  "numbered dois = zip [0 ..< length dois] dois"

text \<open>
  Two settings of the options, a message and two lookups, for the concrete instances
  below.
\<close>

definition allOff :: options where
  "allOff = \<lparr>noDots = False, tryExtractDoi = False, enforceDoiUrl = False\<rparr>"

definition allOn :: options where
  "allOn = \<lparr>noDots = True, tryExtractDoi = True, enforceDoiUrl = True\<rparr>"

definition sampleMessage :: cr_message where
  "sampleMessage =
     \<lparr>issued = Some ''1905'', title = Some [''On MoS2 films''], container_title = None,
      volume = Some ''17'', issue = None, page = None, DOI = None,
      URL = Some ''http://dx.doi.org/10.1000/182'',
      author = Some [\<lparr>given = Some ''Albert'', family = Some ''Einstein''\<rparr>]\<rparr>"

definition sampleLookup :: lookup where
  "sampleLookup n doi =
     (if doi = ''10.1000/182'' then Inr sampleMessage else Inl ''Crossref error 404'')"

definition sampleLookupText :: lookupText where
  "sampleLookupText n doi =
     (if doi = ''10.1000/182'' then Inr ''@Article{E05, author = {Albert Einstein}, year = 1905}''
      else if doi = ''10.1000/183'' then Inr ''no entry here''
      else Inl (''Crossref error for '' @ doi @ '': 404''))"

text \<open>
  A name whose white space is single blanks only: no tab or line break, and no two white
  space characters in a row.
\<close>

fun singleSpaced :: "string \<Rightarrow> bool" where
  "singleSpaced [] = True"
| "singleSpaced [c] = (isSpace c \<longrightarrow> c = CHR '' '')"
| "singleSpaced (c # d # s) =
     ((isSpace c \<longrightarrow> c = CHR '' '' \<and> \<not> isSpace d) \<and> singleSpaced (d # s))"

text \<open>
  The DOI shape in the words of the specification: \<open>10.\<close>, four to nine digits, a slash,
  and one or more suffix characters.
\<close>

definition doiShape :: "string \<Rightarrow> bool" where
  "doiShape d =
     (\<exists>ds suf. d = ''10.'' @ ds @ ''/'' @ suf \<and> 4 \<le> length ds \<and> length ds \<le> 9 \<and>
        (\<forall>c \<in> set ds. isDigit c) \<and> suf \<noteq> [] \<and> (\<forall>c \<in> set suf. doiSuffixChar c))"

text \<open>
  For reasoning about the matcher: the context after reading a word, the upper end of a
  bounded repetition, and the first result of a match from any state.
\<close>

definition lastc :: "char option \<Rightarrow> string \<Rightarrow> char option" where
  "lastc p w = (if w = [] then p else Some (last w))"

definition upto_opt :: "nat option \<Rightarrow> nat \<Rightarrow> nat" where
  "upto_opt hi n = (case hi of None \<Rightarrow> n | Some h \<Rightarrow> min h n)"

definition first :: "rx \<Rightarrow> mstate \<Rightarrow> mstate option" where
  "first r st = (case rx_match r st of [] \<Rightarrow> None | x # _ \<Rightarrow> Some x)"



text \<open>
  The entries on which formatting is stable under a re-parse.  A keyword is a non-empty
  lower-case word; a safe key is not empty, has no comma and no white space at its ends;
  a field name is a keyword other than \<open>__proto__\<close>.
\<close>

definition keyword :: "string \<Rightarrow> bool" where
  "keyword w = (w \<noteq> [] \<and> list_all (\<lambda>c. isWord c \<and> toLowerChar c = c) w)"

definition safeKey :: "string \<Rightarrow> bool" where
  "safeKey k = (k \<noteq> [] \<and> list_all notComma k \<and> \<not> isSpace (hd k) \<and> \<not> isSpace (last k))"

definition fieldName :: "string \<Rightarrow> bool" where
  "fieldName f = (keyword f \<and> f \<noteq> ''__proto__'')"

text \<open>
  Braces that are balanced and nest at most one level deep: the flag tells whether a brace
  is open.
\<close>

fun flatBraces :: "bool \<Rightarrow> string \<Rightarrow> bool" where
  "flatBraces inside [] = (\<not> inside)"
| "flatBraces inside (c # s) =
     (if c = CHR ''{'' then \<not> inside \<and> flatBraces True s
      else if c = CHR ''}'' then inside \<and> flatBraces False s
      else flatBraces inside s)"

text \<open>
  Braces that go two levels deep before anything else goes wrong: read from the left, the
  text nests at most one level and closes no brace that is not open, until a brace is
  opened inside an open brace.
\<close>

fun deepBraces :: "bool \<Rightarrow> string \<Rightarrow> bool" where
  "deepBraces inside [] = False"
| "deepBraces inside (c # s) =
     (if c = CHR ''{'' then inside \<or> deepBraces True s
      else if c = CHR ''}'' then inside \<and> deepBraces False s
      else deepBraces inside s)"

text \<open>
  The braces of a value are safe when they are flat, or when they go two levels deep and
  the value has no comma.
\<close>

definition braceSafe :: "string \<Rightarrow> bool" where
  "braceSafe v = (flatBraces False v \<or> (deepBraces False v \<and> list_all notComma v))"

text \<open>
  A safe value is trimmed, has safe braces, and is not wrapped in double quotes.
\<close>

definition safeValue :: "string \<Rightarrow> bool" where
  "safeValue v =
     (trim v = v \<and> braceSafe v \<and> \<not> (startsWith [CHR 0x22] v \<and> endsWith [CHR 0x22] v))"






text \<open>
  The author lists that the strict normalizer leaves as they are.  The text begins with
  the word \<open>and\<close>, in any case; no white space of a name is followed by that word.
\<close>

definition andWordAt :: "string \<Rightarrow> bool" where
  "andWordAt s =
     (case s of
        a # n # d # r \<Rightarrow> a \<in> set ''aA'' \<and> n \<in> set ''nN'' \<and> d \<in> set ''dD'' \<and> (r = [] \<or> isSpace (hd r))
      | _ \<Rightarrow> False)"

fun noAnd :: "string \<Rightarrow> bool" where
  "noAnd [] = True"
| "noAnd (c # s) = ((isSpace c \<longrightarrow> \<not> andWordAt s) \<and> noAnd s)"

text \<open>
  An initial is one character that is its own capital (outside the two whose capital is
  beyond the code units kept).
\<close>

definition capital :: "char \<Rightarrow> bool" where
  "capital c = (upperOf c = [c] \<and> c \<noteq> CHR 0xB5 \<and> c \<noteq> CHR 0xFF)"

definition initial :: "string \<Rightarrow> bool" where
  "initial w = (case w of [c] \<Rightarrow> capital c | _ \<Rightarrow> False)"

text \<open>
  A stable name is not empty, has no white space at its ends and single blanks only
  inside, has no word \<open>and\<close> after a blank, and either opens and ends with a brace, or has
  no period and no comma and is made of initials followed by one more word.
\<close>

definition stableName :: "string \<Rightarrow> bool" where
  "stableName n =
     (n \<noteq> [] \<and> \<not> isSpace (hd n) \<and> \<not> isSpace (last n) \<and> singleSpaced n \<and> noAnd n \<and>
      ((startsWith ''{'' n \<and> endsWith ''}'' n) \<or>
       (CHR ''.'' \<notin> set n \<and> CHR '','' \<notin> set n \<and>
        list_all initial (butlast (splitChar CHR '' '' n)))))"

text \<open>The pieces of a text between the occurrences of \<open> and \<close>.\<close>

fun splitAnd :: "string \<Rightarrow> string list" where
  "splitAnd [] = [[]]"
| "splitAnd (c # s) =
     (if take 5 (c # s) = '' and '' then [] # splitAnd (drop 4 s)
      else case splitAnd s of [] \<Rightarrow> [[c]] | x # xs \<Rightarrow> (c # x) # xs)"

text \<open>A stable author list is made of stable names joined by \<open> and \<close>.\<close>

definition stableAuthors :: "string \<Rightarrow> bool" where
  "stableAuthors a = list_all stableName (splitAnd a)"

text \<open>
  An entry is safe for the round trip under given options when its type is a keyword,
  its key is safe, every field that gets a line has a field name and, after the
  normalization pass, a safe value, and the normalized author is a stable author list.
\<close>

definition roundTripSafe :: "options \<Rightarrow> entry \<Rightarrow> bool" where
  "roundTripSafe opts e =
     (let fs = normalizeFields opts (fields_obj e) in
      keyword (type e) \<and> safeKey (key e) \<and>
      list_all (\<lambda>f. fieldName f \<and> safeValue (fieldText fs f)) (emittedNames fs) \<and>
      (truthy fs ''author'' \<longrightarrow> stableAuthors (fieldText fs ''author'')))"


section \<open>The matcher\<close>

declare rx_match.simps [simp del] rx_replace_all.simps [simp del]
  rx_split_go.simps [simp del] parseFields.simps [simp del]

lemmas ms = rx_match.simps

lemma lastc_simps [simp]: "lastc p [] = p" "lastc p (c # w) = lastc (Some c) w"
  by (auto simp: lastc_def)


lemma rev_upt_0: "rev [0..<Suc (Suc m)] = map Suc (rev [0..<Suc m]) @ [0]"
  by (simp only: upt_conv_Cons [of 0 "Suc (Suc m)"] map_Suc_upt [symmetric] rev.simps rev_map)

lemma rep_chr:
  assumes "case hi of None \<Rightarrow> True | Some h \<Rightarrow> lo \<le> h"
  shows "rx_match (Rep lo hi (Chr P)) (cs, p, s) =
           map (\<lambda>k. (cs, lastc p (take k s), drop k s))
               (rev [lo ..< Suc (upto_opt hi (length (takeWhile P s)))])"
  using assms
proof (induction s arbitrary: lo hi p)
  case Nil
  then show ?case by (cases hi) (auto simp: upto_opt_def ms)
next
  case (Cons c t)
  show ?case
  proof (cases "hi = Some 0")
    case True
    with Cons.prems show ?thesis by (simp add: upto_opt_def ms)
  next
    case nz: False
    show ?thesis
    proof (cases "P c")
      case False
      with nz show ?thesis by (cases hi) (auto simp: upto_opt_def ms)
    next
      case True
      let ?hi' = "map_option (\<lambda>h. h - 1) hi"
      let ?m = "upto_opt ?hi' (length (takeWhile P t))"
      have pre: "case ?hi' of None \<Rightarrow> True | Some h \<Rightarrow> lo - 1 \<le> h"
        using Cons.prems by (cases hi) auto
      have up: "upto_opt hi (length (takeWhile P (c # t))) = Suc ?m"
        using True nz by (cases hi) (auto simp: upto_opt_def)
      have step: "rx_match (Rep lo hi (Chr P)) (cs, p, c # t) =
                    rx_match (Rep (lo - 1) ?hi' (Chr P)) (cs, Some c, t)
                    @ (if lo = 0 then [(cs, p, c # t)] else [])"
        using True nz by (simp add: ms)
      show ?thesis
      proof (cases lo)
        case 0
        then show ?thesis
          unfolding step up Cons.IH [OF pre]
          by (simp only: rev_upt_0) (simp add: comp_def)
      next
        case (Suc l)
        have "[Suc l..<Suc (Suc ?m)] = map Suc [l..<Suc ?m]"
          by (simp only: map_Suc_upt)
        then show ?thesis
          unfolding step up Cons.IH [OF pre] using Suc
          by (simp add: rev_map comp_def del: upt_Suc)
      qed
    qed
  qed
qed

lemma rx_first_first: "rx_first r p s = first r ([], p, s)"
  by (simp add: rx_first_def first_def)

lemma first_None: "first r st = None \<longleftrightarrow> rx_match r st = []"
  by (simp add: first_def split: list.splits)


lemma first_Seq_skip:
  "rx_match a st = x # xs \<Longrightarrow> rx_match b x = [] \<Longrightarrow>
   first (Seq a b) st = (case concat (map (rx_match b) xs) of [] \<Rightarrow> None | y # _ \<Rightarrow> Some y)"
  by (auto simp: first_def ms split: list.splits)





lemma match_Chr_none: "\<not> P c \<Longrightarrow> rx_match (Chr P) (cs, p, c # s) = []"
  by (simp add: ms)


lemma match_Lit_none: "d \<noteq> c \<Longrightarrow> rx_match (Lit c) (cs, p, d # s) = []"
  by (simp add: Lit_def ms)


lemma first_rep_chr:
  assumes "case hi of None \<Rightarrow> True | Some h \<Rightarrow> lo \<le> h"
    and "lo \<le> length (takeWhile P s)"
  shows "first (Rep lo hi (Chr P)) (cs, p, s) =
           Some (cs, lastc p (take (upto_opt hi (length (takeWhile P s))) s),
                 drop (upto_opt hi (length (takeWhile P s))) s)"
proof -
  have "lo \<le> upto_opt hi (length (takeWhile P s))"
    using assms by (cases hi) (auto simp: upto_opt_def)
  then have "[lo ..< Suc (upto_opt hi (length (takeWhile P s)))]
               = [lo ..< upto_opt hi (length (takeWhile P s))] @ [upto_opt hi (length (takeWhile P s))]"
    by simp
  then show ?thesis
    unfolding first_def rep_chr [OF assms(1)] by simp
qed

lemma take_length_takeWhile: "take (length (takeWhile P s)) s = takeWhile P s"
  by (induction s) auto

lemma drop_length_takeWhile: "drop (length (takeWhile P s)) s = dropWhile P s"
  by (induction s) auto


lemma first_Plus_chr:
  "s \<noteq> [] \<Longrightarrow> P (hd s) \<Longrightarrow>
   first (Plus (Chr P)) (cs, p, s) = Some (cs, lastc p (takeWhile P s), dropWhile P s)"
  using first_rep_chr [where hi=None and lo=1 and P=P and s=s and cs=cs and p=p]
  by (cases s) (auto simp add: Plus_def upto_opt_def take_length_takeWhile drop_length_takeWhile)

lemma match_Plus_chr_none:
  "s = [] \<or> \<not> P (hd s) \<Longrightarrow> rx_match (Plus (Chr P)) (cs, p, s) = []"
  unfolding Plus_def by (subst rep_chr, simp, cases s) (auto simp: upto_opt_def)


lemma drop_in_takeWhile:
  "k < length (takeWhile P s) \<Longrightarrow> \<exists>c s'. drop k s = c # s' \<and> P c"
proof (induction s arbitrary: k)
  case Nil
  then show ?case by simp
next
  case (Cons a s)
  then show ?case by (cases k) (auto split: if_splits)
qed

lemma concat_map_Nil: "(\<And>x. x \<in> set xs \<Longrightarrow> f x = []) \<Longrightarrow> concat (map f xs) = []"
  by (induction xs) auto

lemma rep_chr_then:
  assumes hi: "case hi of None \<Rightarrow> True | Some h \<Rightarrow> lo \<le> h"
    and R: "\<And>cs p c s'. P c \<Longrightarrow> rx_match R (cs, p, c # s') = []"
  shows "rx_match (Seq (Rep lo hi (Chr P)) R) (cs, p, s) =
           (if lo \<le> length (takeWhile P s) \<and>
               (case hi of None \<Rightarrow> True | Some h \<Rightarrow> length (takeWhile P s) \<le> h)
            then rx_match R (cs, lastc p (takeWhile P s), dropWhile P s) else [])"
proof -
  let ?n = "length (takeWhile P s)"
  let ?g = "\<lambda>k. (cs, lastc p (take k s), drop k s)"
  have van: "rx_match R (?g k) = []" if "k < ?n" for k
    using drop_in_takeWhile [OF that] R by auto
  have all: "rx_match (Seq (Rep lo hi (Chr P)) R) (cs, p, s)
               = concat (map (\<lambda>k. rx_match R (?g k)) (rev [lo ..< Suc (upto_opt hi ?n)]))"
    by (simp only: ms(3) rep_chr [OF hi] map_map comp_def)
  show ?thesis
  proof (cases "lo \<le> ?n \<and> (case hi of None \<Rightarrow> True | Some h \<Rightarrow> ?n \<le> h)")
    case True
    then have m: "upto_opt hi ?n = ?n" by (cases hi) (auto simp: upto_opt_def)
    have "[lo ..< Suc ?n] = [lo ..< ?n] @ [?n]" using True by simp
    then have "concat (map (\<lambda>k. rx_match R (?g k)) (rev [lo ..< Suc ?n]))
                 = rx_match R (?g ?n) @ concat (map (\<lambda>k. rx_match R (?g k)) (rev [lo ..< ?n]))"
      by simp
    also have "concat (map (\<lambda>k. rx_match R (?g k)) (rev [lo ..< ?n])) = []"
      by (rule concat_map_Nil) (auto intro: van)
    finally show ?thesis
      using True by (simp add: all m take_length_takeWhile drop_length_takeWhile)
  next
    case False
    have "concat (map (\<lambda>k. rx_match R (?g k)) (rev [lo ..< Suc (upto_opt hi ?n)])) = []"
    proof (rule concat_map_Nil)
      fix k assume "k \<in> set (rev [lo ..< Suc (upto_opt hi ?n)])"
      then have "lo \<le> k" "k \<le> upto_opt hi ?n" by auto
      then have "k < ?n" using False by (cases hi) (auto simp: upto_opt_def)
      then show "rx_match R (?g k) = []" by (rule van)
    qed
    then show ?thesis using False by (simp only: all if_False)
  qed
qed

lemma match_suffix:
  "st' \<in> set (rx_match r st) \<Longrightarrow> \<exists>w. snd (snd st) = w @ snd (snd st')"
proof (induction r st arbitrary: st' rule: rx_match.induct)
  case (1 P cs p s)
  then show ?case by (cases s) (auto simp: ms(1) split: if_splits)
next
  case (2 st)
  then show ?case by (simp add: ms(2))
next
  case (3 a b st)
  from "3.prems" obtain x where x: "x \<in> set (rx_match a st)" and y: "st' \<in> set (rx_match b x)"
    by (subst (asm) ms(3)) auto
  from "3.IH"(1) [OF x] obtain w1 where "snd (snd st) = w1 @ snd (snd x)" ..
  moreover from "3.IH"(2) [OF x y] obtain w2 where "snd (snd x) = w2 @ snd (snd st')" ..
  ultimately have "snd (snd st) = (w1 @ w2) @ snd (snd st')" by simp
  then show ?case ..
next
  case (4 a b st)
  from "4.prems" have "st' \<in> set (rx_match a st) \<or> st' \<in> set (rx_match b st)"
    by (simp add: ms(4))
  with "4.IH" show ?case by blast
next
  case (5 lo hi r cs p s)
  show ?case
  proof (cases "hi = Some 0")
    case True
    with "5.prems" show ?thesis by (subst (asm) ms(5)) simp
  next
    case False
    from "5.prems" False have
      "(\<exists>x \<in> set (filter (\<lambda>st'. length (snd (snd st')) < length s) (rx_match r (cs, p, s))).
          st' \<in> set (rx_match (Rep (lo - 1) (map_option (\<lambda>h. h - 1) hi) r) x))
       \<or> st' = (cs, p, s)"
      by (subst (asm) ms(5)) (auto split: if_splits)
    then show ?thesis
    proof
      assume "\<exists>x \<in> set (filter (\<lambda>st'. length (snd (snd st')) < length s) (rx_match r (cs, p, s))).
          st' \<in> set (rx_match (Rep (lo - 1) (map_option (\<lambda>h. h - 1) hi) r) x)"
      then obtain x where x: "x \<in> set (filter (\<lambda>st'. length (snd (snd st')) < length s) (rx_match r (cs, p, s)))"
        and y: "st' \<in> set (rx_match (Rep (lo - 1) (map_option (\<lambda>h. h - 1) hi) r) x)"
        by blast
      from x have x': "x \<in> set (rx_match r (cs, p, s))" by simp
      from "5.IH"(1) [OF False x'] obtain w1 where "snd (snd (cs, p, s)) = w1 @ snd (snd x)" ..
      moreover from "5.IH"(2) [OF False x y] obtain w2 where "snd (snd x) = w2 @ snd (snd st')" ..
      ultimately have "snd (snd (cs, p, s)) = (w1 @ w2) @ snd (snd st')" by simp
      then show ?thesis ..
    next
      assume "st' = (cs, p, s)"
      then show ?thesis by simp
    qed
  qed
next
  case (6 cs p s)
  then show ?case by (simp add: ms(6) split: if_splits)
next
  case (7 cs p s)
  then show ?case by (simp add: ms(7) split: if_splits)
next
  case (8 cs p s)
  then show ?case by (simp add: ms(8) split: if_splits)
next
  case (9 n r cs p s)
  from "9.prems" obtain x where x: "x \<in> set (rx_match r (cs, p, s))"
    and e: "snd (snd st') = snd (snd x)"
    by (subst (asm) ms(9)) auto
  from "9.IH" [OF x] e show ?case by simp
qed


lemma first_suffix: "first r (cs, p, s) = Some (cs', p', s') \<Longrightarrow> take (length s - length s') s @ s' = s"
proof -
  assume "first r (cs, p, s) = Some (cs', p', s')"
  then have "(cs', p', s') \<in> set (rx_match r (cs, p, s))"
    by (auto simp: first_def split: list.splits)
  from match_suffix [OF this] show ?thesis by auto
qed

lemma rx_search_Some:
  "rx_search r p s = Some (pre, m, cs, p', s') \<Longrightarrow>
     s = pre @ m @ s' \<and> rx_first r (lastc p pre) (m @ s') = Some (cs, p', s') \<and>
     (\<forall>i < length pre. rx_first r (lastc p (take i s)) (drop i s) = None)"
proof (induction s arbitrary: p pre)
  case Nil
  then show ?case
    using first_suffix [of r "[]" p "[]" cs p' s']
    by (auto simp: rx_first_first split: option.splits)
next
  case (Cons c s)
  show ?case
  proof (cases "rx_first r p (c # s)")
    case (Some st)
    obtain a b d where st: "st = (a, b, d)" by (cases st)
    with Some Cons.prems have e: "pre = []" "m = take (Suc (length s) - length s') (c # s)"
       "a = cs" "b = p'" "d = s'"
      by auto
    from Some st e have "first r ([], p, c # s) = Some (cs, p', s')" by (simp add: rx_first_first)
    from first_suffix [OF this] Some st e show ?thesis by simp
  next
    case None
    with Cons.prems obtain pre' where r: "rx_search r (Some c) s = Some (pre', m, cs, p', s')"
      and pre: "pre = c # pre'"
      by (auto split: option.splits)
    from Cons.IH [OF r] have ih: "s = pre' @ m @ s'"
      "rx_first r (lastc (Some c) pre') (m @ s') = Some (cs, p', s')"
      "\<forall>i < length pre'. rx_first r (lastc (Some c) (take i s)) (drop i s) = None"
      by auto
    have "rx_first r (lastc p (take i (c # s))) (drop i (c # s)) = None" if "i < length pre" for i
      using that None ih(3) pre by (cases i) auto
    with ih pre show ?thesis by simp
  qed
qed

lemma rx_search_None:
  "rx_search r p s = None \<Longrightarrow> i \<le> length s \<Longrightarrow> rx_first r (lastc p (take i s)) (drop i s) = None"
proof (induction s arbitrary: p i)
  case Nil
  then show ?case by (auto split: option.splits)
next
  case (Cons c s)
  then show ?case by (cases i) (auto split: option.splits)
qed


section \<open>Trimming\<close>

lemma trim_id: "s \<noteq> [] \<Longrightarrow> \<not> isSpace (hd s) \<Longrightarrow> \<not> isSpace (last s) \<Longrightarrow> trim s = s"
proof -
  assume a: "s \<noteq> []" "\<not> isSpace (hd s)" "\<not> isSpace (last s)"
  then have "dropWhile isSpace s = s" by (cases s) auto
  moreover have "dropWhile isSpace (rev s) = rev s"
    using a by (cases "rev s") (auto simp: last_rev [symmetric] simp del: last_rev)
  ultimately show ?thesis by (simp add: trim_def)
qed

section \<open>Field objects\<close>

lemma getField_setField: "getField (setField f v fs) g = (if g = f then Some v else getField fs g)"
  by (induction fs) (auto simp: getField_def)


lemma fieldText_setField: "fieldText (setField f v fs) g = (if g = f then v else fieldText fs g)"
  by (simp add: fieldText_def getField_setField)

lemma set_objectKeys: "set (objectKeys fs) = {f. getField fs f \<noteq> None}"
  by (auto simp: objectKeys_def getField_def map_of_eq_None_iff)

lemma extra_sorted: "sorted (extra fs)"
  and extra_distinct: "distinct (extra fs)"
  and extra_set: "set (extra fs) = {f. getField fs f \<noteq> None \<and> f \<notin> set preferred}"
  using set_objectKeys [of fs] by (auto simp: extra_def objectKeys_def)

lemma entryLines_emitted: "entryLines fs = map (fieldLine fs) (emittedNames fs)"
  by (simp add: entryLines_def emittedNames_def)

lemma getField_stepAuthor: "g \<noteq> ''author'' \<Longrightarrow> getField (stepAuthor opts fs) g = getField fs g"
  by (simp add: stepAuthor_def getField_setField)

lemma getField_stepTitle: "g \<noteq> ''title'' \<Longrightarrow> getField (stepTitle fs) g = getField fs g"
  by (simp add: stepTitle_def getField_setField)




section \<open>Author names\<close>

lemma einstein_comma_nodots:
  "normalizeAuthorsStrict \<lparr>noDots = True, tryExtractDoi = x, enforceDoiUrl = y\<rparr> ''Einstein, Albert''
     = ''A Einstein''"
  by code_simp

lemma einstein_comma_dots:
  "normalizeAuthorsStrict \<lparr>noDots = False, tryExtractDoi = x, enforceDoiUrl = y\<rparr> ''Einstein, Albert''
     = ''A Einstein''"
  by code_simp

lemma einstein_space_nodots:
  "normalizeAuthorsStrict \<lparr>noDots = True, tryExtractDoi = x, enforceDoiUrl = y\<rparr> ''Albert Einstein''
     = ''A Einstein''"
  by code_simp

lemma einstein_space_dots:
  "normalizeAuthorsStrict \<lparr>noDots = False, tryExtractDoi = x, enforceDoiUrl = y\<rparr> ''Albert Einstein''
     = ''A Einstein''"
  by code_simp

lemma earlier_einstein_nodots:
  "normalizeAuthors \<lparr>noDots = True, tryExtractDoi = x, enforceDoiUrl = y\<rparr> ''Einstein, Albert''
     = ''A Einstein'' \<and>
   normalizeAuthors \<lparr>noDots = True, tryExtractDoi = x, enforceDoiUrl = y\<rparr> ''Albert Einstein''
     = ''A Einstein''"
  by code_simp

lemma earlier_einstein_dots:
  "normalizeAuthors \<lparr>noDots = False, tryExtractDoi = x, enforceDoiUrl = y\<rparr> ''Einstein, Albert''
     = ''A Einstein'' \<and>
   normalizeAuthors \<lparr>noDots = False, tryExtractDoi = x, enforceDoiUrl = y\<rparr> ''Albert Einstein''
     = ''A Einstein''"
  by code_simp

text \<open>
  The earlier normalizer has no rule for corporate authors: the collaboration name is read
  as a given name and a family name.
\<close>

lemma earlier_atlas:
  "normalizeAuthors allOff ''{{ATLAS Collaboration}}'' = ''{ Collaboration}}'' \<and>
   normalizeAuthors allOn ''{{ATLAS Collaboration}}'' = ''{ Collaboration}}''"
  by code_simp

text \<open>
  C3.  Under every setting of the options, the comma form \<open>Einstein, Albert\<close> and the space
  form \<open>Albert Einstein\<close> are both normalized to \<open>A Einstein\<close>, by the strict normalizer and
  by the earlier one alike.
\<close>

theorem C3_author_round_trip:
  "normalizeAuthorsStrict opts ''Einstein, Albert'' = ''A Einstein'' \<and>
   normalizeAuthorsStrict opts ''Albert Einstein'' = ''A Einstein'' \<and>
   normalizeAuthors opts ''Einstein, Albert'' = ''A Einstein'' \<and>
   normalizeAuthors opts ''Albert Einstein'' = ''A Einstein''"
proof (cases opts)
  case (fields b x y)
  then show ?thesis
    by (cases b) (simp_all add: einstein_comma_nodots einstein_comma_dots
                            einstein_space_nodots einstein_space_dots
                            earlier_einstein_nodots earlier_einstein_dots)
qed



lemma first_spaces_nil: "rx_first rx_spaces p [] = None"
  using match_Plus_chr_none [where P = isSpace and s = "[]" and cs = "[]" and p = p]
  by (simp add: rx_first_first rx_spaces_def first_None)
























text \<open>A no-break space inside a wrapped name is white space too, and comes back as a blank.\<close>

lemma wrapped_name_no_break_space:
  "fullyWrapped (''{{ATLAS'' @ [CHR 0xA0] @ ''Collaboration}}'') \<and>
   normalizeAuthorsStrict allOff (''{{ATLAS'' @ [CHR 0xA0] @ ''Collaboration}}'')
     = ''{{ATLAS Collaboration}}''"
  by code_simp




section \<open>Titles\<close>

lemma bi2te3: "latexifyMaterialsInTitle ''Bi2Te3 nanosheets'' = ''{Bi$_2$Te$_3$} nanosheets''"
  by code_simp

lemma bi2te3_again:
  "latexifyMaterialsInTitle ''{Bi$_2$Te$_3$} nanosheets'' = ''{Bi$_2$Te$_3$} nanosheets''"
  by code_simp

lemma latexify_guard:
  "includesStr subscriptMarker t \<or> includesStr mathrmMarker t \<Longrightarrow> latexifyMaterialsInTitle t = t"
  by (simp add: latexifyMaterialsInTitle_def)

text \<open>
  C5.  The title \<open>Bi2Te3 nanosheets\<close> becomes \<open>{Bi$_2$Te$_3$} nanosheets\<close>; formatting that result
  again returns it unchanged; and every title that holds the subscript marker \<open>$_\<close> or the
  marker \<open>\mathrm\<close> anywhere is returned as it is.
\<close>

theorem C5_title_markup:
  "latexifyMaterialsInTitle ''Bi2Te3 nanosheets'' = ''{Bi$_2$Te$_3$} nanosheets'' \<and>
   latexifyMaterialsInTitle (latexifyMaterialsInTitle ''Bi2Te3 nanosheets'')
     = latexifyMaterialsInTitle ''Bi2Te3 nanosheets'' \<and>
   (includesStr subscriptMarker t \<or> includesStr mathrmMarker t \<longrightarrow> latexifyMaterialsInTitle t = t)"
  by (simp add: bi2te3 bi2te3_again latexify_guard)

lemma mathrm_title_guarded: "includesStr mathrmMarker (''Growth of $'' @ mathrmMarker @ ''{Bi2Te3}$'')"
  by code_simp

text \<open>C5, an instance: a title in math mode that holds a formula token is left alone.\<close>

theorem C5_title_markup_witness:
  "(includesStr subscriptMarker (''Growth of $'' @ mathrmMarker @ ''{Bi2Te3}$'') \<or>
    includesStr mathrmMarker (''Growth of $'' @ mathrmMarker @ ''{Bi2Te3}$'')) \<and>
   latexifyMaterialsInTitle (''Growth of $'' @ mathrmMarker @ ''{Bi2Te3}$'')
     = ''Growth of $'' @ mathrmMarker @ ''{Bi2Te3}$''"
  using C5_title_markup [of "''Growth of $'' @ mathrmMarker @ ''{Bi2Te3}$''"] mathrm_title_guarded
  by blast

subsection \<open>The title formatter is idempotent\<close>
















lemma inc_Cons: "includesStr X s \<Longrightarrow> includesStr X (c # s)"
  by simp













section \<open>DOI extraction\<close>

lemma match_Seq_Lit:
  "rx_match (Seq (Lit c) R) (cs, p, s) =
     (case s of [] \<Rightarrow> [] | d # t \<Rightarrow> if d = c then rx_match R (cs, Some c, t) else [])"
  by (cases s) (auto simp: ms(1,3) Lit_def)

lemma slash_not_digit: "\<not> isDigit CHR ''/''"
  by (simp add: isDigit_def)

lemma doi_match:
  "rx_match rx_doi (cs, p, s) =
     (case s of
        a # b # c # t \<Rightarrow>
          if a = CHR ''1'' \<and> b = CHR ''0'' \<and> c = CHR ''.'' \<and>
             4 \<le> length (takeWhile isDigit t) \<and> length (takeWhile isDigit t) \<le> 9
          then (case dropWhile isDigit t of
                  [] \<Rightarrow> []
                | e # t2 \<Rightarrow> if e = CHR ''/''
                             then rx_match (Plus (Chr doiSuffixChar)) (cs, Some CHR ''/'', t2)
                             else [])
          else []
      | _ \<Rightarrow> [])"
proof -
  have R: "\<And>cs p c s'. isDigit c \<Longrightarrow>
            rx_match (Seq (Lit CHR ''/'') (Plus (Chr doiSuffixChar))) (cs, p, c # s') = []"
    using slash_not_digit by (auto simp: match_Seq_Lit)
  show ?thesis
    unfolding rx_doi_def Seqs.simps
    by (simp add: match_Seq_Lit rep_chr_then [OF _ R] split: list.splits)
qed

lemma suffix_not_space: "doiSuffixChar c \<Longrightarrow> \<not> isSpace c"
  by (auto simp: doiSuffixChar_def isSpace_def isUpper_def isLower_def isDigit_def)

lemma doiShape_trim: "doiShape d \<Longrightarrow> trim d = d \<and> d \<noteq> []"
proof -
  assume "doiShape d"
  then obtain ds suf where d: "d = ''10.'' @ ds @ ''/'' @ suf" and s: "suf \<noteq> []"
    "\<forall>c \<in> set suf. doiSuffixChar c"
    by (auto simp: doiShape_def)
  have "last d = last suf" using d s by simp
  moreover have "doiSuffixChar (last suf)" using s by simp
  ultimately have "\<not> isSpace (last d)" by (simp add: suffix_not_space)
  moreover have "\<not> isSpace (hd d)" using d by (simp add: isSpace_def)
  ultimately show ?thesis using d by (auto intro: trim_id)
qed

lemma doi_sound:
  assumes "first rx_doi (cs, p, s) = Some (cs', p', s')"
  shows "\<exists>d. s = d @ s' \<and> doiShape d \<and> (s' = [] \<or> \<not> doiSuffixChar (hd s'))"
proof -
  from assms have ne: "rx_match rx_doi (cs, p, s) \<noteq> []"
    by (auto simp: first_def split: list.splits)
  then obtain t where s: "s = ''10.'' @ t"
    by (auto simp: doi_match split: list.splits if_splits)
  let ?ds = "takeWhile isDigit t"
  from ne s have n: "4 \<le> length ?ds" "length ?ds \<le> 9"
    by (auto simp: doi_match split: list.splits if_splits)
  from ne s n obtain t2 where t2: "dropWhile isDigit t = CHR ''/'' # t2"
    by (auto simp: doi_match split: list.splits if_splits)
  from s n t2 have m: "rx_match rx_doi (cs, p, s) = rx_match (Plus (Chr doiSuffixChar)) (cs, Some CHR ''/'', t2)"
    by (simp add: doi_match)
  with ne have h: "t2 \<noteq> []" "doiSuffixChar (hd t2)"
    using match_Plus_chr_none [of t2 doiSuffixChar cs "Some CHR ''/''"] by auto
  let ?suf = "takeWhile doiSuffixChar t2"
  from assms m first_Plus_chr [where P = doiSuffixChar and s = t2 and cs = cs and p = "Some CHR ''/''", OF h]
  have s': "s' = dropWhile doiSuffixChar t2" by (simp add: first_def)
  let ?d = "''10.'' @ ?ds @ ''/'' @ ?suf"
  have "t = ?ds @ dropWhile isDigit t" by simp
  then have "t = ?ds @ CHR ''/'' # ?suf @ dropWhile doiSuffixChar t2"
    by (simp only: t2 takeWhile_dropWhile_id)
  then have 1: "s = ?d @ s'" using s s' by simp
  have "?suf \<noteq> []" using h by (cases t2) auto
  then have 2: "doiShape ?d"
    unfolding doiShape_def using n
    by (intro exI [of _ ?ds] exI [of _ ?suf]) (auto dest: set_takeWhileD)
  have 3: "s' = [] \<or> \<not> doiSuffixChar (hd s')"
    unfolding s' using hd_dropWhile [of doiSuffixChar t2] by blast
  from 1 2 3 show ?thesis by blast
qed

lemma doi_complete:
  assumes "doiShape d"
  shows "rx_match rx_doi (cs, p, d @ t) \<noteq> []"
proof -
  from assms obtain ds suf where d: "d = ''10.'' @ ds @ ''/'' @ suf" and n: "4 \<le> length ds" "length ds \<le> 9"
    and ds: "\<forall>c \<in> set ds. isDigit c" and s: "suf \<noteq> []" "\<forall>c \<in> set suf. doiSuffixChar c"
    by (auto simp: doiShape_def)
  have tw: "takeWhile isDigit (ds @ CHR ''/'' # suf @ t) = ds"
    using ds slash_not_digit by (simp add: takeWhile_tail)
  have dw: "dropWhile isDigit (ds @ CHR ''/'' # suf @ t) = CHR ''/'' # suf @ t"
    using ds slash_not_digit by (simp add: dropWhile_append3)
  have "suf @ t \<noteq> []" "doiSuffixChar (hd (suf @ t))" using s by (cases suf; simp)+
  from first_Plus_chr [where P = doiSuffixChar and s = "suf @ t" and cs = cs and p = "Some CHR ''/''", OF this]
  have "rx_match (Plus (Chr doiSuffixChar)) (cs, Some CHR ''/'', suf @ t) \<noteq> []"
    by (auto simp: first_def split: list.splits)
  then show ?thesis using n by (simp add: d doi_match tw dw)
qed

lemma extract_none:
  assumes "extractDoiFromText u = []"
  shows "\<not> (\<exists>pre d post. trim u = pre @ d @ post \<and> doiShape d)"
proof
  assume "\<exists>pre d post. trim u = pre @ d @ post \<and> doiShape d"
  then obtain pre d post where t: "trim u = pre @ d @ post" and d: "doiShape d" by blast
  have une: "u \<noteq> []" using t d doiShape_trim [OF d] by (auto simp: trim_def)
  show False
  proof (cases "rx_search rx_doi None (trim u)")
    case None
    from rx_search_None [OF None, of "length pre"] t
    have "rx_first rx_doi (lastc None pre) (d @ post) = None" by simp
    with doi_complete [OF d] show False by (simp add: rx_first_first first_None)
  next
    case (Some f)
    obtain pre' m cs p' s' where f: "f = (pre', m, cs, p', s')" by (cases f)
    from assms Some f une have m: "m = []" by (simp add: extractDoiFromText_def)
    from rx_search_Some [OF Some [unfolded f]] m
    have "first rx_doi ([], lastc None pre', s') = Some (cs, p', s')" by (simp add: rx_first_first)
    from doi_sound [OF this] doiShape_trim show False by auto
  qed
qed

lemma extract_some:
  assumes "extractDoiFromText u \<noteq> []"
  shows "\<exists>pre post. trim u = pre @ extractDoiFromText u @ post \<and> doiShape (extractDoiFromText u) \<and>
           (post = [] \<or> \<not> doiSuffixChar (hd post)) \<and>
           (\<forall>pre' d' post'. trim u = pre' @ d' @ post' \<and> doiShape d' \<longrightarrow> length pre \<le> length pre')"
proof -
  from assms have une: "u \<noteq> []" by (auto simp: extractDoiFromText_def)
  from assms une obtain pre m cs p' s' where
    f: "rx_search rx_doi None (trim u) = Some (pre, m, cs, p', s')"
    by (auto simp: extractDoiFromText_def split: option.splits)
  with une have e: "extractDoiFromText u = m" by (simp add: extractDoiFromText_def)
  note ss = rx_search_Some [OF f]
  from ss have t: "trim u = pre @ m @ s'" by (rule conjunct1)
  from ss have h: "first rx_doi ([], lastc None pre, m @ s') = Some (cs, p', s')"
    unfolding rx_first_first by (elim conjE)
  from ss have l: "\<And>i. i < length pre \<Longrightarrow>
      rx_match rx_doi ([], lastc None (take i (trim u)), drop i (trim u)) = []"
    unfolding rx_first_first first_None by (elim conjE) (rule allE, assumption, erule mp)
  from doi_sound [OF h] have sh: "doiShape m" and mx: "s' = [] \<or> \<not> doiSuffixChar (hd s')"
    by auto
  have lm: "length pre \<le> length pre'" if "trim u = pre' @ d' @ post'" "doiShape d'" for pre' d' post'
  proof (rule ccontr)
    assume "\<not> length pre \<le> length pre'"
    then have "length pre' < length pre" by simp
    from l [OF this] have "rx_match rx_doi ([], lastc None pre', d' @ post') = []"
      by (simp add: that(1))
    with doi_complete [OF that(2)] show False by simp
  qed
  show ?thesis
    unfolding e
  proof (intro exI conjI allI impI)
    show "trim u = pre @ m @ s'" by (rule t)
    show "doiShape m" by (rule sh)
    show "s' = [] \<or> \<not> doiSuffixChar (hd s')" by (rule mx)
    show "length pre \<le> length pre'" if "trim u = pre' @ d' @ post' \<and> doiShape d'" for pre' d' post'
      using that lm by blast
  qed
qed

lemma truthy_stepAuthor: "g \<noteq> ''author'' \<Longrightarrow> truthy (stepAuthor opts fs) g = truthy fs g"
  by (simp add: truthy_def getField_stepAuthor)

lemma truthy_stepTitle: "g \<noteq> ''title'' \<Longrightarrow> truthy (stepTitle fs) g = truthy fs g"
  by (simp add: truthy_def getField_stepTitle)

lemma stepEnforce_no_doi: "\<not> truthy fs ''doi'' \<Longrightarrow> stepEnforce opts fs = fs"
  by (simp add: stepEnforce_def)

lemma stepExtract_eq:
  assumes "tryExtractDoi opts" and "\<not> truthy fs ''doi''" and "getField fs ''url'' = Some u" and "u \<noteq> []"
  shows "stepExtract opts fs =
           (if extractDoiFromText u \<noteq> [] then setField ''doi'' (extractDoiFromText u) fs else fs)"
proof -
  have "truthy fs ''url''" and "fieldText fs ''url'' = u"
    using assms(3,4) by (simp_all add: truthy_def fieldText_def)
  then show ?thesis using assms(1,2) by (simp add: stepExtract_def Let_def)
qed

lemma extract_example:
  "extractDoiFromText ''https://doi.org/10.1038/s41586-020-1234-5'' = ''10.1038/s41586-020-1234-5''"
  by code_simp

lemma normalize_extracts:
  assumes "tryExtractDoi opts" and "\<not> truthy fs ''doi''" and "getField fs ''url'' = Some u" and "u \<noteq> []"
  shows "extractDoiFromText u \<noteq> [] \<Longrightarrow>
           getField (normalizeFields opts fs) ''doi'' = Some (extractDoiFromText u)"
    and "extractDoiFromText u = [] \<Longrightarrow> normalizeFields opts fs = stepTitle (stepAuthor opts fs)"
proof -
  let ?fs = "stepTitle (stepAuthor opts fs)"
  have nd: "\<not> truthy ?fs ''doi''" using assms(2) by (simp add: truthy_stepTitle truthy_stepAuthor)
  have gu: "getField ?fs ''url'' = Some u"
    using assms(3) by (simp add: getField_stepTitle getField_stepAuthor)
  note se = stepExtract_eq [OF assms(1) nd gu assms(4)]
  show "normalizeFields opts fs = ?fs" if "extractDoiFromText u = []"
    using that nd by (simp add: normalizeFields_def se stepEnforce_no_doi)
  show "getField (normalizeFields opts fs) ''doi'' = Some (extractDoiFromText u)"
    if ne: "extractDoiFromText u \<noteq> []"
  proof -
    let ?d = "extractDoiFromText u"
    from extract_some [OF ne] have "doiShape ?d" by blast
    then have tr: "trim ?d = ?d" by (simp add: doiShape_trim)
    have "getField (stepEnforce opts (setField ''doi'' ?d ?fs)) ''doi'' = Some ?d"
      by (simp add: stepEnforce_def Let_def getField_setField fieldText_setField tr)
    then show ?thesis using ne by (simp add: normalizeFields_def se)
  qed
qed

text \<open>
  C6.  Extraction is on, the entry has no \<open>doi\<close> value (none, or the empty string) and has a
  non-empty \<open>url\<close> value \<open>u\<close>.  If the trimmed URL holds a substring of the DOI shape, the
  extracted text is the first such substring (no such substring starts further left, and
  it runs on as far as suffix characters go) and it becomes the \<open>doi\<close> field of the
  normalized entry.  If it holds none, the extraction step changes nothing and the pass is
  just the author and title steps.  For \<open>https://doi.org/10.1038/s41586-020-1234-5\<close> the \<open>doi\<close>
  field becomes \<open>10.1038/s41586-020-1234-5\<close>.
\<close>

theorem C6_doi_extraction:
  assumes "tryExtractDoi opts" and "\<not> truthy fs ''doi''" and "getField fs ''url'' = Some u" and "u \<noteq> []"
  shows "(extractDoiFromText u = [] \<longrightarrow>
            stepExtract opts fs = fs \<and>
            normalizeFields opts fs = stepTitle (stepAuthor opts fs) \<and>
            \<not> (\<exists>pre d post. trim u = pre @ d @ post \<and> doiShape d)) \<and>
         (extractDoiFromText u \<noteq> [] \<longrightarrow>
            stepExtract opts fs = setField ''doi'' (extractDoiFromText u) fs \<and>
            getField (normalizeFields opts fs) ''doi'' = Some (extractDoiFromText u) \<and>
            (\<exists>pre post. trim u = pre @ extractDoiFromText u @ post \<and>
               doiShape (extractDoiFromText u) \<and>
               (post = [] \<or> \<not> doiSuffixChar (hd post)) \<and>
               (\<forall>pre' d' post'. trim u = pre' @ d' @ post' \<and> doiShape d'
                   \<longrightarrow> length pre \<le> length pre'))) \<and>
         (u = ''https://doi.org/10.1038/s41586-020-1234-5'' \<longrightarrow>
            getField (normalizeFields opts fs) ''doi'' = Some ''10.1038/s41586-020-1234-5'')"
proof (intro conjI impI)
  assume e: "extractDoiFromText u = []"
  show "stepExtract opts fs = fs" using e by (simp add: stepExtract_eq [OF assms])
  show "normalizeFields opts fs = stepTitle (stepAuthor opts fs)"
    using e by (rule normalize_extracts(2) [OF assms])
  show "\<not> (\<exists>pre d post. trim u = pre @ d @ post \<and> doiShape d)"
    using e by (rule extract_none)
next
  assume ne: "extractDoiFromText u \<noteq> []"
  show "stepExtract opts fs = setField ''doi'' (extractDoiFromText u) fs"
    using ne by (simp add: stepExtract_eq [OF assms])
  show "getField (normalizeFields opts fs) ''doi'' = Some (extractDoiFromText u)"
    using ne by (rule normalize_extracts(1) [OF assms])
  show "\<exists>pre post. trim u = pre @ extractDoiFromText u @ post \<and>
               doiShape (extractDoiFromText u) \<and>
               (post = [] \<or> \<not> doiSuffixChar (hd post)) \<and>
               (\<forall>pre' d' post'. trim u = pre' @ d' @ post' \<and> doiShape d'
                   \<longrightarrow> length pre \<le> length pre')"
    using ne by (rule extract_some)
next
  assume u: "u = ''https://doi.org/10.1038/s41586-020-1234-5''"
  then have "extractDoiFromText u \<noteq> []" by (simp add: extract_example)
  from normalize_extracts(1) [OF assms this]
  show "getField (normalizeFields opts fs) ''doi'' = Some ''10.1038/s41586-020-1234-5''"
    by (simp add: u extract_example)
qed

text \<open>C6, an instance: an entry with that URL as its only field.\<close>

theorem C6_doi_extraction_witness:
  "tryExtractDoi allOn \<and>
   \<not> truthy [(''url'', ''https://doi.org/10.1038/s41586-020-1234-5'')] ''doi'' \<and>
   getField [(''url'', ''https://doi.org/10.1038/s41586-020-1234-5'')] ''url''
     = Some ''https://doi.org/10.1038/s41586-020-1234-5'' \<and>
   getField (normalizeFields allOn [(''url'', ''https://doi.org/10.1038/s41586-020-1234-5'')]) ''doi''
     = Some ''10.1038/s41586-020-1234-5''"
proof -
  have a: "tryExtractDoi allOn" by (simp add: allOn_def)
  have b: "\<not> truthy [(''url'', ''https://doi.org/10.1038/s41586-020-1234-5'')] ''doi''"
    by (simp add: truthy_def getField_def)
  have c: "getField [(''url'', ''https://doi.org/10.1038/s41586-020-1234-5'')] ''url''
             = Some ''https://doi.org/10.1038/s41586-020-1234-5''"
    by (simp add: getField_def)
  have d: "''https://doi.org/10.1038/s41586-020-1234-5'' \<noteq> []" by simp
  show ?thesis using a b c C6_doi_extraction [OF a b c d] by simp
qed

section \<open>URL enforcement\<close>





section \<open>The entry key\<close>

text \<open>
  C8.  The claim is that a successful parse never gives an empty key.  On the fragment
  below the header pattern matches with a blank as the key text, and the key, once trimmed,
  is empty.
\<close>

theorem C8_empty_key:
  "parseEntry ''@article{ , title = {x}}''
     = Some \<lparr>type = ''article'', key = [], fields_obj = [(''title'', ''x'')]\<rparr>"
  by code_simp

section \<open>Serialization\<close>

text \<open>
  C2, as stated, fails: the fragment below parses to an entry whose \<open>title\<close> field is present
  with the empty string as its value, and no line is emitted for it.
\<close>

theorem C2_present_field_without_line:
  "parseEntry ''@a{k, title = {}}'' = Some \<lparr>type = ''a'', key = ''k'', fields_obj = [(''title'', [])]\<rparr> \<and>
   normalizeFields allOff [(''title'', [])] = [(''title'', [])] \<and>
   specLines [(''title'', [])] = [''  title = {}''] \<and>
   entryLines [(''title'', [])] = [] \<and>
   formatEntry allOff \<lparr>type = ''a'', key = ''k'', fields_obj = [(''title'', [])]\<rparr>
     = ''@a{k,'' @ NL @ NL @ ''}'' @ NL"
  by code_simp

text \<open>
  C2, amended.  The text of an entry is the header line \<open>@type{key,\<close>, then one line
  \<open>  field = {value}\<close> for each of the fields \<open>author\<close>, \<open>title\<close>, \<open>journal\<close>, \<open>booktitle\<close>,
  \<open>year\<close>, \<open>volume\<close>, \<open>number\<close>, \<open>pages\<close>, \<open>doi\<close>, \<open>url\<close> whose value is not empty, in that
  order, then one line for every other field, these sorted by name and each once, then the
  closing brace line; the lines are joined by a comma and a line break.  The fields and
  values are those after the normalization pass.
\<close>

theorem C2_serialization_layout:
  "formatEntry opts e =
     ''@'' @ type e @ ''{'' @ key e @ '','' @ NL
     @ join ('','' @ NL)
         (map (\<lambda>f. ''  '' @ f @ '' = {'' @ the (getField (normalizeFields opts (fields_obj e)) f) @ ''}'')
              (filter (\<lambda>f. \<exists>v. getField (normalizeFields opts (fields_obj e)) f = Some v \<and> v \<noteq> [])
                      [''author'', ''title'', ''journal'', ''booktitle'', ''year'', ''volume'',
                       ''number'', ''pages'', ''doi'', ''url'']
               @ extra (normalizeFields opts (fields_obj e))))
     @ NL @ ''}'' @ NL
   \<and> sorted (extra (normalizeFields opts (fields_obj e)))
   \<and> distinct (extra (normalizeFields opts (fields_obj e)))
   \<and> set (extra (normalizeFields opts (fields_obj e)))
       = {f. getField (normalizeFields opts (fields_obj e)) f \<noteq> None \<and>
             f \<notin> set [''author'', ''title'', ''journal'', ''booktitle'', ''year'', ''volume'',
                        ''number'', ''pages'', ''doi'', ''url'']}"
proof -
  let ?fs = "normalizeFields opts (fields_obj e)"
  let ?line = "\<lambda>f. ''  '' @ f @ '' = {'' @ the (getField ?fs f) @ ''}''"
  have t: "truthy ?fs = (\<lambda>f. \<exists>v. getField ?fs f = Some v \<and> v \<noteq> [])"
    by (auto simp: truthy_def fun_eq_iff split: option.splits)
  have l1: "map (fieldLine ?fs) (filter (truthy ?fs) preferred) = map ?line (filter (truthy ?fs) preferred)"
    by (rule map_cong) (auto simp: fieldLine_def fieldText_def truthy_def split: option.splits)
  have l2: "map (fieldLine ?fs) (extra ?fs) = map ?line (extra ?fs)"
    by (rule map_cong) (auto simp: fieldLine_def fieldText_def extra_set split: option.splits)
  have "entryLines ?fs = map ?line (filter (truthy ?fs) preferred @ extra ?fs)"
    by (simp add: entryLines_def l1 l2)
  then have "formatEntry opts e =
     ''@'' @ type e @ ''{'' @ key e @ '','' @ NL
     @ join ('','' @ NL)
         (map ?line (filter (\<lambda>f. \<exists>v. getField ?fs f = Some v \<and> v \<noteq> []) preferred @ extra ?fs))
     @ NL @ ''}'' @ NL"
    unfolding t by (simp add: formatEntry_def serialize_def)
  moreover have "set (extra ?fs) = {f. getField ?fs f \<noteq> None \<and> f \<notin> set preferred}"
    by (rule extra_set)
  ultimately show ?thesis
    unfolding preferred_def by (simp only: extra_sorted extra_distinct simp_thms)
qed

lemma keys_stepAuthor:
  "getField (stepAuthor opts fs) g \<noteq> None \<Longrightarrow> getField fs g \<noteq> None \<or> g = ''author''"
  by (auto simp: stepAuthor_def getField_setField split: if_splits)

lemma keys_stepTitle:
  "getField (stepTitle fs) g \<noteq> None \<Longrightarrow> getField fs g \<noteq> None \<or> g = ''title''"
  by (auto simp: stepTitle_def getField_setField split: if_splits)

lemma keys_stepExtract:
  "getField (stepExtract opts fs) g \<noteq> None \<Longrightarrow> getField fs g \<noteq> None \<or> g = ''doi''"
  by (auto simp: stepExtract_def getField_setField Let_def split: if_splits)

lemma keys_stepEnforce:
  "getField (stepEnforce opts fs) g \<noteq> None \<Longrightarrow> getField fs g \<noteq> None \<or> g = ''doi'' \<or> g = ''url''"
  by (auto simp: stepEnforce_def getField_setField Let_def split: if_splits)

lemma keys_normalizeFields:
  assumes "getField (normalizeFields opts fs) g \<noteq> None"
  shows "getField fs g \<noteq> None \<or> g \<in> set preferred"
proof -
  have "g = ''author'' \<or> g = ''title'' \<or> g = ''doi'' \<or> g = ''url'' \<or> getField fs g \<noteq> None"
    using assms unfolding normalizeFields_def
    by (meson keys_stepAuthor keys_stepTitle keys_stepExtract keys_stepEnforce)
  then show ?thesis by (auto simp: preferred_def)
qed

lemma keys_crossref: "getField (fields_obj (crossrefToBibEntry msg)) g \<noteq> None \<Longrightarrow> g \<in> set preferred"
  by (auto simp: crossrefToBibEntry_def Let_def getField_def preferred_def split: if_splits)

lemma preferred_empty_not_emitted:
  "f \<in> set preferred \<Longrightarrow> getField fs f = Some [] \<Longrightarrow> f \<notin> set (emittedNames fs)"
  by (auto simp: emittedNames_def truthy_def extra_set)

lemma other_emitted:
  "f \<notin> set preferred \<Longrightarrow> getField fs f = Some v \<Longrightarrow> f \<in> set (emittedNames fs)"
  by (auto simp: emittedNames_def extra_set)

text \<open>
  C2, an instance: five preferred fields given out of order, one of them empty, and two
  other fields; the lines come in the preferred order, then the other two by name.
\<close>

theorem C2_serialization_layout_witness:
  "formatEntry allOff \<lparr>type = ''misc'', key = ''k'',
                       fields_obj = [(''zip'', ''1''), (''url'', ''http://x.example/''), (''year'', ''1905''),
                                     (''title'', []), (''journal'', ''J''), (''note'', []),
                                     (''author'', ''Marie Curie'')]\<rparr>
     = ''@misc{k,'' @ NL @ ''  author = {M Curie},'' @ NL @ ''  journal = {J},'' @ NL
       @ ''  year = {1905},'' @ NL @ ''  url = {http://x.example/},'' @ NL
       @ ''  note = {},'' @ NL @ ''  zip = {1}'' @ NL @ ''}'' @ NL \<and>
   extra (normalizeFields allOff [(''zip'', ''1''), (''url'', ''http://x.example/''), (''year'', ''1905''),
                                  (''title'', []), (''journal'', ''J''), (''note'', []),
                                  (''author'', ''Marie Curie'')])
     = [''note'', ''zip''] \<and>
   sorted (extra (normalizeFields allOff [(''zip'', ''1''), (''url'', ''http://x.example/''), (''year'', ''1905''),
                                  (''title'', []), (''journal'', ''J''), (''note'', []),
                                  (''author'', ''Marie Curie'')]))"
proof -
  have "formatEntry allOff \<lparr>type = ''misc'', key = ''k'',
                       fields_obj = [(''zip'', ''1''), (''url'', ''http://x.example/''), (''year'', ''1905''),
                                     (''title'', []), (''journal'', ''J''), (''note'', []),
                                     (''author'', ''Marie Curie'')]\<rparr>
     = ''@misc{k,'' @ NL @ ''  author = {M Curie},'' @ NL @ ''  journal = {J},'' @ NL
       @ ''  year = {1905},'' @ NL @ ''  url = {http://x.example/},'' @ NL
       @ ''  note = {},'' @ NL @ ''  zip = {1}'' @ NL @ ''}'' @ NL"
    by code_simp
  moreover have
    "extra (normalizeFields allOff [(''zip'', ''1''), (''url'', ''http://x.example/''), (''year'', ''1905''),
                                  (''title'', []), (''journal'', ''J''), (''note'', []),
                                  (''author'', ''Marie Curie'')])
     = [''note'', ''zip'']"
    by code_simp
  ultimately show ?thesis
    using C2_serialization_layout [of allOff "\<lparr>type = ''misc'', key = ''k'',
                       fields_obj = [(''zip'', ''1''), (''url'', ''http://x.example/''), (''year'', ''1905''),
                                     (''title'', []), (''journal'', ''J''), (''note'', []),
                                     (''author'', ''Marie Curie'')]\<rparr>"]
    by simp
qed

text \<open>
  C10, as stated, fails: a field outside the preferred list is written even when its value
  is the empty string.
\<close>

theorem C10_empty_field_with_line:
  "getField (normalizeFields allOff [(''note'', [])]) ''note'' = Some [] \<and>
   fieldLine (normalizeFields allOff [(''note'', [])]) ''note''
     \<in> set (entryLines (normalizeFields allOff [(''note'', [])])) \<and>
   formatEntry allOff \<lparr>type = ''misc'', key = ''k'', fields_obj = [(''note'', [])]\<rparr>
     = ''@misc{k,'' @ NL @ ''  note = {}'' @ NL @ ''}'' @ NL"
  by code_simp

lemma line_name:
  assumes "CHR '' '' \<notin> set f" and "g @ '' = {'' @ v @ ''}'' = f @ '' = {}''"
  shows "g = f \<and> v = []"
proof -
  from assms(2) obtain us where
    "(g = f @ us \<and> us @ '' = {'' @ v @ ''}'' = '' = {}'') \<or>
     (g @ us = f \<and> '' = {'' @ v @ ''}'' = us @ '' = {}'')"
    by (auto simp: append_eq_append_conv2)
  then show ?thesis
  proof
    assume a: "g = f @ us \<and> us @ '' = {'' @ v @ ''}'' = '' = {}''"
    then have "length (us @ '' = {'' @ v @ ''}'') = length '' = {}''" by (simp only:)
    then have "us = []" "v = []" by simp_all
    with a show ?thesis by simp
  next
    assume a: "g @ us = f \<and> '' = {'' @ v @ ''}'' = us @ '' = {}''"
    show ?thesis
    proof (cases us)
      case Nil
      with a show ?thesis by simp
    next
      case (Cons c cs)
      with a have "c = CHR '' ''" by simp
      with a Cons have "CHR '' '' \<in> set f" by auto
      with assms(1) show ?thesis by simp
    qed
  qed
qed

lemma preferred_no_blank: "f \<in> set preferred \<Longrightarrow> CHR '' '' \<notin> set f"
  by (auto simp: preferred_def)

lemma empty_preferred_no_line:
  assumes "f \<in> set preferred" and "getField fs f = Some []"
  shows "''  '' @ f @ '' = {}'' \<notin> set (entryLines fs)"
proof
  assume "''  '' @ f @ '' = {}'' \<in> set (entryLines fs)"
  then obtain g where g: "g \<in> set (emittedNames fs)" and l: "fieldLine fs g = ''  '' @ f @ '' = {}''"
    by (auto simp: entryLines_emitted)
  from l have "g @ '' = {'' @ fieldText fs g @ ''}'' = f @ '' = {}''" by (simp add: fieldLine_def)
  from line_name [OF preferred_no_blank [OF assms(1)] this] have "g = f" by simp
  with g preferred_empty_not_emitted [OF assms] show False by simp
qed

lemma other_has_line:
  assumes "f \<notin> set preferred" and "getField fs f = Some v"
  shows "''  '' @ f @ '' = {'' @ v @ ''}'' \<in> set (entryLines fs)"
proof -
  from other_emitted [OF assms] have "fieldLine fs f \<in> set (entryLines fs)"
    by (simp add: entryLines_emitted)
  then show ?thesis using assms(2) by (simp add: fieldLine_def fieldText_def)
qed

text \<open>
  C10, amended.  Write \<open>fs\<close> for the fields of an entry after the normalization pass and
  \<open>lines\<close> for the lines that \<open>formatEntry\<close> joins.  For each of the ten fields \<open>author\<close>,
  \<open>title\<close>, \<open>journal\<close>, \<open>booktitle\<close>, \<open>year\<close>, \<open>volume\<close>, \<open>number\<close>, \<open>pages\<close>, \<open>doi\<close>, \<open>url\<close>: when
  its value in \<open>fs\<close> is the empty string, its line \<open>  field = {}\<close> is not among the lines.
  Every other field that is present has its line among them, whatever its value, the
  empty string included.  An entry made by the metadata adapter has none but those ten
  fields, so none of its fields that is empty after the pass has a line.
\<close>

theorem C10_empty_fields:
  "formatEntry opts e =
     ''@'' @ type e @ ''{'' @ key e @ '','' @ NL
     @ join ('','' @ NL) (entryLines (normalizeFields opts (fields_obj e)))
     @ NL @ ''}'' @ NL \<and>
   (f \<in> set [''author'', ''title'', ''journal'', ''booktitle'', ''year'', ''volume'',
              ''number'', ''pages'', ''doi'', ''url''] \<and>
    getField (normalizeFields opts (fields_obj e)) f = Some []
      \<longrightarrow> ''  '' @ f @ '' = {}'' \<notin> set (entryLines (normalizeFields opts (fields_obj e)))) \<and>
   (f \<notin> set [''author'', ''title'', ''journal'', ''booktitle'', ''year'', ''volume'',
              ''number'', ''pages'', ''doi'', ''url''] \<and>
    getField (normalizeFields opts (fields_obj e)) f = Some v
      \<longrightarrow> ''  '' @ f @ '' = {'' @ v @ ''}'' \<in> set (entryLines (normalizeFields opts (fields_obj e)))) \<and>
   (getField (normalizeFields opts (fields_obj (crossrefToBibEntry msg))) g = Some []
      \<longrightarrow> ''  '' @ g @ '' = {}''
            \<notin> set (entryLines (normalizeFields opts (fields_obj (crossrefToBibEntry msg)))))"
proof -
  have p: "set [''author'', ''title'', ''journal'', ''booktitle'', ''year'', ''volume'',
                ''number'', ''pages'', ''doi'', ''url''] = set preferred"
    by (simp add: preferred_def)
  have "g \<in> set preferred"
    if "getField (normalizeFields opts (fields_obj (crossrefToBibEntry msg))) g = Some []"
    using that keys_normalizeFields [of opts "fields_obj (crossrefToBibEntry msg)" g]
          keys_crossref [of msg g]
    by auto
  note adapter = this
  show ?thesis
    unfolding p
  proof (intro conjI impI)
    show "formatEntry opts e =
            ''@'' @ type e @ ''{'' @ key e @ '','' @ NL
            @ join ('','' @ NL) (entryLines (normalizeFields opts (fields_obj e)))
            @ NL @ ''}'' @ NL"
      by (simp add: formatEntry_def serialize_def)
  next
    assume "f \<in> set preferred \<and> getField (normalizeFields opts (fields_obj e)) f = Some []"
    then show "''  '' @ f @ '' = {}'' \<notin> set (entryLines (normalizeFields opts (fields_obj e)))"
      by (intro empty_preferred_no_line) simp_all
  next
    assume "f \<notin> set preferred \<and> getField (normalizeFields opts (fields_obj e)) f = Some v"
    then show "''  '' @ f @ '' = {'' @ v @ ''}'' \<in> set (entryLines (normalizeFields opts (fields_obj e)))"
      by (intro other_has_line) simp_all
  next
    assume a: "getField (normalizeFields opts (fields_obj (crossrefToBibEntry msg))) g = Some []"
    show "''  '' @ g @ '' = {}''
            \<notin> set (entryLines (normalizeFields opts (fields_obj (crossrefToBibEntry msg))))"
      using adapter [OF a] a by (rule empty_preferred_no_line)
  qed
qed

lemma sample_adapter:
  "getField (normalizeFields allOff (fields_obj (crossrefToBibEntry sampleMessage))) ''pages'' = Some [] \<and>
   entryLines (normalizeFields allOff (fields_obj (crossrefToBibEntry sampleMessage)))
     = [''  author = {A Einstein}'', ''  title = {On {MoS$_2$} films}'', ''  year = {1905}'',
        ''  volume = {17}'', ''  url = {http://dx.doi.org/10.1000/182}'']"
  by code_simp

text \<open>C10, an instance: the sample message has no page range, and no \<open>pages\<close> line is written.\<close>

theorem C10_empty_fields_witness:
  "getField (normalizeFields allOff (fields_obj (crossrefToBibEntry sampleMessage))) ''pages'' = Some [] \<and>
   ''  pages = {}'' \<notin> set (entryLines (normalizeFields allOff (fields_obj (crossrefToBibEntry sampleMessage)))) \<and>
   entryLines (normalizeFields allOff (fields_obj (crossrefToBibEntry sampleMessage)))
     = [''  author = {A Einstein}'', ''  title = {On {MoS$_2$} films}'', ''  year = {1905}'',
        ''  volume = {17}'', ''  url = {http://dx.doi.org/10.1000/182}'']"
  using C10_empty_fields [of allOff "crossrefToBibEntry sampleMessage" "''pages''" _ sampleMessage "''pages''"]
        sample_adapter
  by simp

section \<open>Formatting, re-parsing, formatting again\<close>





















lemma trim_pad:
  assumes "\<forall>c \<in> set a. isSpace c" "\<forall>c \<in> set b. isSpace c"
    and "x \<noteq> []" "\<not> isSpace (hd x)" "\<not> isSpace (last x)"
  shows "trim (a @ x @ b) = x"
proof -
  have 1: "dropWhile isSpace (a @ x @ b) = x @ b"
    using assms(1,3,4) by (cases x) (auto simp: dropWhile_append3)
  have "rev (x @ b) = rev b @ rev x" by simp
  moreover have "dropWhile isSpace (rev b @ rev x) = rev x"
    using assms(2,3,5) by (cases "rev x") (auto simp: dropWhile_append3 hd_rev)
  ultimately show ?thesis by (simp add: trim_def 1)
qed




























































subsection \<open>Stable author lists\<close>























lemma collapse_nil: "collapseSpaces [] = []"
  unfolding collapseSpaces_def by (subst rx_replace_all.simps) (simp add: first_spaces_nil)











subsection \<open>The round trip\<close>







text \<open>
  Each condition of safety is needed: the entries below break one condition each, and for
  each of them the second text differs from the first, or the formatted text does not
  parse.  In order: an empty key, a key with a comma, a key that ends with a blank, a type
  with a capital, a field name with a capital, the field name \<open>__proto__\<close>, a value in
  double quotes, a value two levels deep with a comma, a value that ends with a no-break
  space, and a value that closes a brace it did not open.
\<close>

lemma unsafe_keys:
  "parseEntry (formatEntry allOff \<lparr>type = ''misc'', key = [], fields_obj = [(''note'', ''x'')]\<rparr>) = None \<and>
   map_option (formatEntry allOff)
     (parseEntry (formatEntry allOff \<lparr>type = ''misc'', key = ''a,b'', fields_obj = [(''note'', ''x'')]\<rparr>))
     = Some (''@misc{a,'' @ NL @ ''  note = {x}'' @ NL @ ''}'' @ NL) \<and>
   formatEntry allOff \<lparr>type = ''misc'', key = ''a,b'', fields_obj = [(''note'', ''x'')]\<rparr>
     = ''@misc{a,b,'' @ NL @ ''  note = {x}'' @ NL @ ''}'' @ NL \<and>
   map_option (formatEntry allOff)
     (parseEntry (formatEntry allOff \<lparr>type = ''misc'', key = ''k '', fields_obj = [(''note'', ''x'')]\<rparr>))
     = Some (''@misc{k,'' @ NL @ ''  note = {x}'' @ NL @ ''}'' @ NL) \<and>
   formatEntry allOff \<lparr>type = ''misc'', key = ''k '', fields_obj = [(''note'', ''x'')]\<rparr>
     = ''@misc{k ,'' @ NL @ ''  note = {x}'' @ NL @ ''}'' @ NL"
  by code_simp

lemma unsafe_names:
  "map_option (formatEntry allOff)
     (parseEntry (formatEntry allOff \<lparr>type = ''Misc'', key = ''k'', fields_obj = [(''note'', ''x'')]\<rparr>))
     = Some (''@misc{k,'' @ NL @ ''  note = {x}'' @ NL @ ''}'' @ NL) \<and>
   formatEntry allOff \<lparr>type = ''Misc'', key = ''k'', fields_obj = [(''note'', ''x'')]\<rparr>
     = ''@Misc{k,'' @ NL @ ''  note = {x}'' @ NL @ ''}'' @ NL \<and>
   map_option (formatEntry allOff)
     (parseEntry (formatEntry allOff \<lparr>type = ''misc'', key = ''k'', fields_obj = [(''Note'', ''x'')]\<rparr>))
     = Some (''@misc{k,'' @ NL @ ''  note = {x}'' @ NL @ ''}'' @ NL) \<and>
   formatEntry allOff \<lparr>type = ''misc'', key = ''k'', fields_obj = [(''Note'', ''x'')]\<rparr>
     = ''@misc{k,'' @ NL @ ''  Note = {x}'' @ NL @ ''}'' @ NL \<and>
   map_option (formatEntry allOff)
     (parseEntry (formatEntry allOff \<lparr>type = ''misc'', key = ''k'', fields_obj = [(''__proto__'', ''x'')]\<rparr>))
     = Some (''@misc{k,'' @ NL @ NL @ ''}'' @ NL) \<and>
   formatEntry allOff \<lparr>type = ''misc'', key = ''k'', fields_obj = [(''__proto__'', ''x'')]\<rparr>
     = ''@misc{k,'' @ NL @ ''  __proto__ = {x}'' @ NL @ ''}'' @ NL"
  by code_simp

lemma unsafe_values:
  "map_option (formatEntry allOff)
     (parseEntry (formatEntry allOff
        \<lparr>type = ''misc'', key = ''k'', fields_obj = [(''note'', [CHR 0x22] @ ''x'' @ [CHR 0x22])]\<rparr>))
     = Some (''@misc{k,'' @ NL @ ''  note = {x}'' @ NL @ ''}'' @ NL) \<and>
   formatEntry allOff \<lparr>type = ''misc'', key = ''k'', fields_obj = [(''note'', [CHR 0x22] @ ''x'' @ [CHR 0x22])]\<rparr>
     = ''@misc{k,'' @ NL @ ''  note = {'' @ [CHR 0x22] @ ''x'' @ [CHR 0x22] @ ''}'' @ NL @ ''}'' @ NL \<and>
   map_option (formatEntry allOff)
     (parseEntry (formatEntry allOff
        \<lparr>type = ''misc'', key = ''k'', fields_obj = [(''note'', ''a {b, {c} d} e'')]\<rparr>))
     = Some (''@misc{k,'' @ NL @ ''  note = {{a {b}'' @ NL @ ''}'' @ NL) \<and>
   formatEntry allOff \<lparr>type = ''misc'', key = ''k'', fields_obj = [(''note'', ''a {b, {c} d} e'')]\<rparr>
     = ''@misc{k,'' @ NL @ ''  note = {a {b, {c} d} e}'' @ NL @ ''}'' @ NL \<and>
   map_option (formatEntry allOff)
     (parseEntry (formatEntry allOff
        \<lparr>type = ''misc'', key = ''k'', fields_obj = [(''note'', ''x'' @ [CHR 0xA0])]\<rparr>))
     = Some (''@misc{k,'' @ NL @ ''  note = {x}'' @ NL @ ''}'' @ NL) \<and>
   formatEntry allOff \<lparr>type = ''misc'', key = ''k'', fields_obj = [(''note'', ''x'' @ [CHR 0xA0])]\<rparr>
     = ''@misc{k,'' @ NL @ ''  note = {x'' @ [CHR 0xA0] @ ''}'' @ NL @ ''}'' @ NL \<and>
   map_option (formatEntry allOff)
     (parseEntry (formatEntry allOff
        \<lparr>type = ''misc'', key = ''k'', fields_obj = [(''note'', ''a } b'')]\<rparr>))
     = Some (''@misc{k,'' @ NL @ ''  note = {a}'' @ NL @ ''}'' @ NL) \<and>
   formatEntry allOff \<lparr>type = ''misc'', key = ''k'', fields_obj = [(''note'', ''a } b'')]\<rparr>
     = ''@misc{k,'' @ NL @ ''  note = {a } b}'' @ NL @ ''}'' @ NL"
  by code_simp

text \<open>
  A corporate author in double braces and a title with braces two levels deep are safe,
  and so is an author list with initials.
\<close>

lemma safe_examples:
  "roundTripSafe allOff \<lparr>type = ''misc'', key = ''k'',
                          fields_obj = [(''author'', ''{{ATLAS Collaboration}}''),
                                        (''title'', ''{The {B}ook}'')]\<rparr> \<and>
   roundTripSafe allOn \<lparr>type = ''misc'', key = ''k'',
                         fields_obj = [(''author'', ''A Einstein and M Curie'')]\<rparr>"
  by code_simp

section \<open>Batch conversion\<close>

lemma numbered_Cons:
  "zip [n ..< n + length (d # ds)] (d # ds) = (n, d) # zip [Suc n ..< Suc n + length ds] ds"
  by (simp del: upt_Suc add: upt_conv_Cons)

lemma convertLoop_acc:
  "convertLoop opts fetch n dois (c, k, f) =
     (c @ concat (map (\<lambda>(i, d). case fetch i d of
                        Inr msg \<Rightarrow> formatEntry opts (crossrefToBibEntry msg) @ NL
                      | Inl err \<Rightarrow> ''% Failed DOI: '' @ d @ '' ('' @ err @ '')'' @ NL)
                     (zip [n ..< n + length dois] dois)),
      k + length (filter (\<lambda>(i, d). \<exists>msg. fetch i d = Inr msg) (zip [n ..< n + length dois] dois)),
      f + length (filter (\<lambda>(i, d). \<exists>err. fetch i d = Inl err) (zip [n ..< n + length dois] dois)))"
proof (induction dois arbitrary: n c k f)
  case Nil
  show ?case by simp
next
  case (Cons d ds)
  show ?case
    unfolding numbered_Cons
    by (cases "fetch n d") (simp_all add: Cons.IH)
qed

lemma convertLoopEarlier_acc:
  "convertLoopEarlier opts fetch n dois (c, k, f) =
     (c @ concat (map (\<lambda>(i, d). case fetch i d of
                        Inl err \<Rightarrow> ''% Failed DOI: '' @ d @ '' ('' @ err @ '')'' @ NL
                      | Inr rawBib \<Rightarrow>
                          (case parseEntry rawBib of
                             None \<Rightarrow> ''% Failed DOI: '' @ d @ '' (Received unparseable BibTeX.)'' @ NL
                           | Some parsed \<Rightarrow>
                               formatEntryEarlier opts
                                 (if \<exists>v. getField (fields_obj parsed) ''doi'' = Some v \<and> v \<noteq> []
                                  then parsed
                                  else parsed\<lparr>fields_obj := setField ''doi'' d (fields_obj parsed)\<rparr>)
                               @ NL))
                     (zip [n ..< n + length dois] dois)),
      k + length (filter (\<lambda>(i, d). \<exists>rawBib. fetch i d = Inr rawBib \<and> parseEntry rawBib \<noteq> None)
                         (zip [n ..< n + length dois] dois)),
      f + length (filter (\<lambda>(i, d). \<not> (\<exists>rawBib. fetch i d = Inr rawBib \<and> parseEntry rawBib \<noteq> None))
                         (zip [n ..< n + length dois] dois)))"
proof (induction dois arbitrary: n c k f)
  case Nil
  show ?case by simp
next
  case (Cons d ds)
  have t: "truthy fs ''doi'' = (\<exists>v. getField fs ''doi'' = Some v \<and> v \<noteq> [])" for fs
    by (auto simp: truthy_def split: option.splits)
  show ?case
    unfolding numbered_Cons
    by (cases "fetch n d"; cases "parseEntry (projr (fetch n d))")
       (auto simp: Cons.IH t)
qed

lemma trim_pieces:
  assumes "ps \<noteq> []" and "\<forall>p \<in> set ps. p \<noteq> [] \<and> \<not> isSpace (hd p)"
    and "last ps = x @ b" and "x \<noteq> []" and "\<not> isSpace (last x)" and "\<forall>c \<in> set b. isSpace c"
  shows "trim (concat ps) = concat (butlast ps) @ x"
proof -
  let ?y = "concat (butlast ps) @ x"
  have c: "concat ps = ?y @ b"
    using assms(1,3) by (metis append_butlast_last_id concat_append concat.simps append_Nil2 append_assoc)
  have y: "?y \<noteq> []" using assms(4) by simp
  have h: "\<not> isSpace (hd ?y)"
  proof (cases "butlast ps")
    case Nil
    with assms(1) have "ps = [last ps]" by (metis append_butlast_last_id append_Nil)
    with assms(2) have "\<not> isSpace (hd (last ps))" by (metis list.set_intros(1))
    with assms(3,4) Nil show ?thesis by simp
  next
    case (Cons q qs)
    then have "q \<in> set ps" by (metis in_set_butlastD list.set_intros(1))
    with assms(2) have "q \<noteq> []" "\<not> isSpace (hd q)" by auto
    with Cons show ?thesis by simp
  qed
  have l: "\<not> isSpace (last ?y)" using assms(4,5) by simp
  from trim_pad [of "[]" b ?y] assms(6) y h l have "trim (?y @ b) = ?y" by simp
  with c show ?thesis by simp
qed


lemma last_numbered:
  "dois \<noteq> [] \<Longrightarrow> last (zip [0 ..< length dois] dois) = (length dois - 1, last dois)"
  by (induction dois rule: rev_induct) simp_all

lemma formatEntry_ends:
  "\<exists>z. formatEntry opts e = CHR ''@'' # z @ ''}'' @ NL"
  by (simp add: formatEntry_def serialize_def)

lemma formatEntryEarlier_ends:
  "\<exists>z. formatEntryEarlier opts e = CHR ''@'' # z @ ''}'' @ NL"
  by (simp add: formatEntryEarlier_def serialize_def)


lemma trim_entry_last:
  assumes "ps \<noteq> []" and "\<forall>p \<in> set ps. p \<noteq> [] \<and> \<not> isSpace (hd p)"
    and "last ps = CHR ''@'' # z @ ''}'' @ NL @ NL"
  shows "(trim (concat ps) @ NL) @ NL = concat ps"
proof -
  have "trim (concat ps) = concat (butlast ps) @ (CHR ''@'' # z @ ''}'')"
    using assms(1,2)
  proof (rule trim_pieces)
    show "last ps = (CHR ''@'' # z @ ''}'') @ NL @ NL" using assms(3) by simp
    show "\<forall>c \<in> set (NL @ NL). isSpace c" by (simp add: NL_def isSpace_def)
    show "\<not> isSpace (last (CHR ''@'' # z @ ''}''))" by (simp add: isSpace_def)
  qed simp
  moreover have "concat ps = concat (butlast ps) @ last ps"
    using assms(1) by (metis append_butlast_last_id concat_append concat.simps append_Nil2)
  ultimately show ?thesis using assms(3) by simp
qed

lemma trim_failure_last:
  assumes "ps \<noteq> []" and "\<forall>p \<in> set ps. p \<noteq> [] \<and> \<not> isSpace (hd p)"
    and "last ps = CHR ''%'' # z @ '')'' @ NL"
  shows "trim (concat ps) @ NL = concat ps"
proof -
  have "trim (concat ps) = concat (butlast ps) @ (CHR ''%'' # z @ '')'')"
    using assms(1,2)
  proof (rule trim_pieces)
    show "last ps = (CHR ''%'' # z @ '')'') @ NL" using assms(3) by simp
    show "\<forall>c \<in> set NL. isSpace c" by (simp add: NL_def isSpace_def)
    show "\<not> isSpace (last (CHR ''%'' # z @ '')''))" by (simp add: isSpace_def)
  qed simp
  moreover have "concat ps = concat (butlast ps) @ last ps"
    using assms(1) by (metis append_butlast_last_id concat_append concat.simps append_Nil2)
  ultimately show ?thesis using assms(3) by simp
qed

lemma piece_starts:
  "(case fetch i d of
      Inr msg \<Rightarrow> formatEntry opts (crossrefToBibEntry msg) @ NL
    | Inl err \<Rightarrow> ''% Failed DOI: '' @ d @ '' ('' @ err @ '')'' @ NL) = p
   \<Longrightarrow> p \<noteq> [] \<and> \<not> isSpace (hd p)"
  by (cases "fetch i d") (auto simp: formatEntry_def serialize_def isSpace_def)

lemma pieceEarlier_starts:
  "(case fetch i d of
      Inl err \<Rightarrow> ''% Failed DOI: '' @ d @ '' ('' @ err @ '')'' @ NL
    | Inr rawBib \<Rightarrow>
        (case parseEntry rawBib of
           None \<Rightarrow> ''% Failed DOI: '' @ d @ '' (Received unparseable BibTeX.)'' @ NL
         | Some parsed \<Rightarrow> formatEntryEarlier opts (g parsed) @ NL)) = p
   \<Longrightarrow> p \<noteq> [] \<and> \<not> isSpace (hd p)"
  by (cases "fetch i d"; cases "parseEntry (projr (fetch i d))")
     (auto simp: formatEntryEarlier_def serialize_def isSpace_def)

text \<open>
  C9.  Each identifier of a run adds one piece to the text, in input order: the formatted
  entry and a line break when its lookup gave an entry, the comment line
  \<open>% Failed DOI: identifier (error text)\<close> when it failed; a failure does not stop the loop.
  The output area holds these pieces, one after the other (without the empty line after a
  last entry), and the status line holds the number of entries and the number of failures.
  With no identifier the handler asks for one and writes nothing.  This holds for the
  handler of either script; in \<open>src/app.js\<close> an answer that does not parse is a failure too.
  With two identifiers, the first succeeding and the second failing, the output is one
  entry and then one failure line, and the status is \<open>Converted 1 DOI(s). Failed: 1.\<close>
\<close>

theorem C9_batch_conversion:
  "(identifiers doiIn = [] \<longrightarrow>
      convertDoi opts fetch doiIn = \<lparr>doiOut = [], status = ''Paste at least one DOI.''\<rparr> \<and>
      convertDoiEarlier opts fetchText doiIn = \<lparr>doiOut = [], status = ''Paste at least one DOI.''\<rparr>) \<and>
   (identifiers doiIn \<noteq> [] \<longrightarrow>
      doiOut (convertDoi opts fetch doiIn)
        @ (if \<exists>msg. fetch (length (identifiers doiIn) - 1) (last (identifiers doiIn)) = Inr msg
           then NL else [])
        = concat (map (\<lambda>(i, d). case fetch i d of
                          Inr msg \<Rightarrow> formatEntry opts (crossrefToBibEntry msg) @ NL
                        | Inl err \<Rightarrow> ''% Failed DOI: '' @ d @ '' ('' @ err @ '')'' @ NL)
                      (numbered (identifiers doiIn))) \<and>
      status (convertDoi opts fetch doiIn)
        = ''Converted ''
          @ decimal (length (filter (\<lambda>(i, d). \<exists>msg. fetch i d = Inr msg) (numbered (identifiers doiIn))))
          @ '' DOI(s). Failed: ''
          @ decimal (length (filter (\<lambda>(i, d). \<exists>err. fetch i d = Inl err) (numbered (identifiers doiIn))))
          @ ''.'') \<and>
   (identifiers doiIn \<noteq> [] \<longrightarrow>
      doiOut (convertDoiEarlier opts fetchText doiIn)
        @ (if \<exists>rawBib. fetchText (length (identifiers doiIn) - 1) (last (identifiers doiIn)) = Inr rawBib
                        \<and> parseEntry rawBib \<noteq> None
           then NL else [])
        = concat (map (\<lambda>(i, d). case fetchText i d of
                          Inl err \<Rightarrow> ''% Failed DOI: '' @ d @ '' ('' @ err @ '')'' @ NL
                        | Inr rawBib \<Rightarrow>
                            (case parseEntry rawBib of
                               None \<Rightarrow> ''% Failed DOI: '' @ d @ '' (Received unparseable BibTeX.)'' @ NL
                             | Some parsed \<Rightarrow>
                                 formatEntryEarlier opts
                                   (if \<exists>v. getField (fields_obj parsed) ''doi'' = Some v \<and> v \<noteq> []
                                    then parsed
                                    else parsed\<lparr>fields_obj := setField ''doi'' d (fields_obj parsed)\<rparr>)
                                 @ NL))
                      (numbered (identifiers doiIn))) \<and>
      status (convertDoiEarlier opts fetchText doiIn)
        = ''Converted ''
          @ decimal (length (filter (\<lambda>(i, d). \<exists>rawBib. fetchText i d = Inr rawBib \<and> parseEntry rawBib \<noteq> None)
                                    (numbered (identifiers doiIn))))
          @ '' DOI(s). Failed: ''
          @ decimal (length (filter (\<lambda>(i, d). \<not> (\<exists>rawBib. fetchText i d = Inr rawBib \<and> parseEntry rawBib \<noteq> None))
                                    (numbered (identifiers doiIn))))
          @ ''.'') \<and>
   (identifiers doiIn = [d1, d2] \<and> fetch 0 d1 = Inr msg \<and> fetch 1 d2 = Inl err \<longrightarrow>
      convertDoi opts fetch doiIn =
        \<lparr>doiOut = formatEntry opts (crossrefToBibEntry msg) @ NL
                  @ ''% Failed DOI: '' @ d2 @ '' ('' @ err @ '')'' @ NL,
         status = ''Converted 1 DOI(s). Failed: 1.''\<rparr>)"
proof (intro conjI impI)
  assume "identifiers doiIn = []"
  then show "convertDoi opts fetch doiIn = \<lparr>doiOut = [], status = ''Paste at least one DOI.''\<rparr>"
    and "convertDoiEarlier opts fetchText doiIn = \<lparr>doiOut = [], status = ''Paste at least one DOI.''\<rparr>"
    by (simp_all add: convertDoi_def convertDoiEarlier_def)
next
  let ?ids = "identifiers doiIn"
  let ?piece = "\<lambda>(i, d). case fetch i d of
                          Inr msg \<Rightarrow> formatEntry opts (crossrefToBibEntry msg) @ NL
                        | Inl err \<Rightarrow> ''% Failed DOI: '' @ d @ '' ('' @ err @ '')'' @ NL"
  let ?ps = "map ?piece (numbered ?ids)"
  assume ne: "?ids \<noteq> []"
  have out: "doiOut (convertDoi opts fetch doiIn) = trim (concat ?ps) @ NL"
    using ne convertLoop_acc [where opts = opts and fetch = fetch and n = 0 and dois = "?ids" and c = "[]" and k = 0 and f = 0]
    by (simp add: convertDoi_def Let_def numbered_def)
  have ps: "?ps \<noteq> []" using ne by (simp add: numbered_def)
  have st: "\<forall>p \<in> set ?ps. p \<noteq> [] \<and> \<not> isSpace (hd p)"
    using piece_starts [where fetch = fetch and opts = opts] by (auto simp del: hd_append2)
  have l: "last ?ps = ?piece (length ?ids - 1, last ?ids)"
    using ne by (simp add: last_map numbered_def last_numbered)
  show "doiOut (convertDoi opts fetch doiIn)
        @ (if \<exists>msg. fetch (length ?ids - 1) (last ?ids) = Inr msg then NL else [])
        = concat ?ps"
  proof (cases "fetch (length ?ids - 1) (last ?ids)")
    case (Inr m)
    from formatEntry_ends [of opts "crossrefToBibEntry m"] obtain z where
      "formatEntry opts (crossrefToBibEntry m) = CHR ''@'' # z @ ''}'' @ NL" ..
    with l Inr have "last ?ps = CHR ''@'' # z @ ''}'' @ NL @ NL" by simp
    from trim_entry_last [OF ps st this] show ?thesis using Inr by (simp add: out)
  next
    case (Inl e)
    with l have "last ?ps = CHR ''%'' # ('' Failed DOI: '' @ last ?ids @ '' ('' @ e) @ '')'' @ NL" by simp
    from trim_failure_last [OF ps st this] show ?thesis using Inl by (simp add: out)
  qed
  show "status (convertDoi opts fetch doiIn)
        = ''Converted ''
          @ decimal (length (filter (\<lambda>(i, d). \<exists>msg. fetch i d = Inr msg) (numbered ?ids)))
          @ '' DOI(s). Failed: ''
          @ decimal (length (filter (\<lambda>(i, d). \<exists>err. fetch i d = Inl err) (numbered ?ids)))
          @ ''.''"
    using ne convertLoop_acc [where opts = opts and fetch = fetch and n = 0 and dois = "?ids" and c = "[]" and k = 0 and f = 0]
    by (simp add: convertDoi_def Let_def numbered_def)
next
  let ?ids = "identifiers doiIn"
  let ?piece = "\<lambda>(i, d). case fetchText i d of
                          Inl err \<Rightarrow> ''% Failed DOI: '' @ d @ '' ('' @ err @ '')'' @ NL
                        | Inr rawBib \<Rightarrow>
                            (case parseEntry rawBib of
                               None \<Rightarrow> ''% Failed DOI: '' @ d @ '' (Received unparseable BibTeX.)'' @ NL
                             | Some parsed \<Rightarrow>
                                 formatEntryEarlier opts
                                   (if \<exists>v. getField (fields_obj parsed) ''doi'' = Some v \<and> v \<noteq> []
                                    then parsed
                                    else parsed\<lparr>fields_obj := setField ''doi'' d (fields_obj parsed)\<rparr>)
                                 @ NL)"
  let ?ps = "map ?piece (numbered ?ids)"
  assume ne: "?ids \<noteq> []"
  have out: "doiOut (convertDoiEarlier opts fetchText doiIn) = trim (concat ?ps) @ NL"
    using ne convertLoopEarlier_acc [where opts = opts and fetch = fetchText and n = 0 and dois = "?ids" and c = "[]" and k = 0 and f = 0]
    by (simp add: convertDoiEarlier_def Let_def numbered_def)
  have ps: "?ps \<noteq> []" using ne by (simp add: numbered_def)
  have st: "\<forall>p \<in> set ?ps. p \<noteq> [] \<and> \<not> isSpace (hd p)"
    using pieceEarlier_starts [where fetch = fetchText and opts = opts] by (auto simp del: hd_append2)
  have l: "last ?ps = ?piece (length ?ids - 1, last ?ids)"
    using ne by (simp add: last_map numbered_def last_numbered)
  show "doiOut (convertDoiEarlier opts fetchText doiIn)
        @ (if \<exists>rawBib. fetchText (length ?ids - 1) (last ?ids) = Inr rawBib \<and> parseEntry rawBib \<noteq> None
           then NL else [])
        = concat ?ps"
  proof (cases "\<exists>rawBib. fetchText (length ?ids - 1) (last ?ids) = Inr rawBib \<and> parseEntry rawBib \<noteq> None")
    case True
    then obtain raw parsed where r: "fetchText (length ?ids - 1) (last ?ids) = Inr raw"
      "parseEntry raw = Some parsed" by auto
    let ?e = "if \<exists>v. getField (fields_obj parsed) ''doi'' = Some v \<and> v \<noteq> [] then parsed
              else parsed\<lparr>fields_obj := setField ''doi'' (last ?ids) (fields_obj parsed)\<rparr>"
    from formatEntryEarlier_ends [of opts ?e] obtain z where
      "formatEntryEarlier opts ?e = CHR ''@'' # z @ ''}'' @ NL" ..
    with l r have "last ?ps = CHR ''@'' # z @ ''}'' @ NL @ NL" by simp
    from trim_entry_last [OF ps st this] show ?thesis using True by (simp add: out)
  next
    case False
    then have "\<exists>z. last ?ps = CHR ''%'' # z @ '')'' @ NL"
      unfolding l
      by (cases "fetchText (length ?ids - 1) (last ?ids)";
          cases "parseEntry (projr (fetchText (length ?ids - 1) (last ?ids)))")
         (auto intro: exI [of _ "'' Failed DOI: '' @ last ?ids @ '' (Received unparseable BibTeX.''"]
                      exI [of _ "'' Failed DOI: '' @ last ?ids @ '' ('' @ w" for w])
    then obtain z where "last ?ps = CHR ''%'' # z @ '')'' @ NL" ..
    from trim_failure_last [OF ps st this] show ?thesis using False by (auto simp: out)
  qed
  show "status (convertDoiEarlier opts fetchText doiIn)
        = ''Converted ''
          @ decimal (length (filter (\<lambda>(i, d). \<exists>rawBib. fetchText i d = Inr rawBib \<and> parseEntry rawBib \<noteq> None)
                                    (numbered ?ids)))
          @ '' DOI(s). Failed: ''
          @ decimal (length (filter (\<lambda>(i, d). \<not> (\<exists>rawBib. fetchText i d = Inr rawBib \<and> parseEntry rawBib \<noteq> None))
                                    (numbered ?ids)))
          @ ''.''"
    using ne convertLoopEarlier_acc [where opts = opts and fetch = fetchText and n = 0 and dois = "?ids" and c = "[]" and k = 0 and f = 0]
    by (simp add: convertDoiEarlier_def Let_def numbered_def)
next
  assume a: "identifiers doiIn = [d1, d2] \<and> fetch 0 d1 = Inr msg \<and> fetch 1 d2 = Inl err"
  from formatEntry_ends [of opts "crossrefToBibEntry msg"] obtain z where
    z: "formatEntry opts (crossrefToBibEntry msg) = CHR ''@'' # z @ ''}'' @ NL" ..
  have "trim ((CHR ''@'' # z @ ''}'' @ NL @ NL @ ''% Failed DOI: '' @ d2 @ '' ('' @ err @ '')'') @ NL)
          = CHR ''@'' # z @ ''}'' @ NL @ NL @ ''% Failed DOI: '' @ d2 @ '' ('' @ err @ '')''"
    using trim_pad [of "[]" NL "CHR ''@'' # z @ ''}'' @ NL @ NL @ ''% Failed DOI: '' @ d2 @ '' ('' @ err @ '')''"]
    by (simp add: NL_def isSpace_def)
  with a z show "convertDoi opts fetch doiIn =
        \<lparr>doiOut = formatEntry opts (crossrefToBibEntry msg) @ NL
                  @ ''% Failed DOI: '' @ d2 @ '' ('' @ err @ '')'' @ NL,
         status = ''Converted 1 DOI(s). Failed: 1.''\<rparr>"
    by (simp add: convertDoi_def Let_def)
qed

lemma sample_batch:
  "identifiers (''10.1000/182'' @ [CHR 0x0D, CHR 0x0A] @ ''  10.1/none '' @ NL @ NL)
     = [''10.1000/182'', ''10.1/none''] \<and>
   sampleLookup 0 ''10.1000/182'' = Inr sampleMessage \<and>
   sampleLookup 1 ''10.1/none'' = Inl ''Crossref error 404'' \<and>
   formatEntry allOn (crossrefToBibEntry sampleMessage)
     = ''@article{Einstein1905On,'' @ NL @ ''  author = {A Einstein},'' @ NL
       @ ''  title = {On {MoS$_2$} films},'' @ NL @ ''  year = {1905},'' @ NL
       @ ''  volume = {17},'' @ NL @ ''  doi = {10.1000/182},'' @ NL
       @ ''  url = {https://doi.org/10.1000/182}'' @ NL @ ''}'' @ NL"
  by code_simp

text \<open>
  C9, an instance: two lines of input, the first identifier known to the sample lookup,
  the second not.
\<close>

theorem C9_batch_conversion_witness:
  "identifiers (''10.1000/182'' @ [CHR 0x0D, CHR 0x0A] @ ''  10.1/none '' @ NL @ NL)
     = [''10.1000/182'', ''10.1/none''] \<and>
   sampleLookup 0 ''10.1000/182'' = Inr sampleMessage \<and>
   sampleLookup 1 ''10.1/none'' = Inl ''Crossref error 404'' \<and>
   convertDoi allOn sampleLookup (''10.1000/182'' @ [CHR 0x0D, CHR 0x0A] @ ''  10.1/none '' @ NL @ NL)
     = \<lparr>doiOut = ''@article{Einstein1905On,'' @ NL @ ''  author = {A Einstein},'' @ NL
                  @ ''  title = {On {MoS$_2$} films},'' @ NL @ ''  year = {1905},'' @ NL
                  @ ''  volume = {17},'' @ NL @ ''  doi = {10.1000/182},'' @ NL
                  @ ''  url = {https://doi.org/10.1000/182}'' @ NL @ ''}'' @ NL @ NL
                  @ ''% Failed DOI: 10.1/none (Crossref error 404)'' @ NL,
        status = ''Converted 1 DOI(s). Failed: 1.''\<rparr>"
  using C9_batch_conversion [where doiIn = "''10.1000/182'' @ [CHR 0x0D, CHR 0x0A] @ ''  10.1/none '' @ NL @ NL"
                               and opts = allOn and fetch = sampleLookup
                               and ?d1.0 = "''10.1000/182''" and ?d2.0 = "''10.1/none''"
                               and msg = sampleMessage and err = "''Crossref error 404''"]
        sample_batch
  by simp

text \<open>
  The earlier handler on three identifiers: an entry without a DOI, which gets the
  identifier as its DOI; an answer that does not parse; a failed request.
\<close>

lemma earlier_batch:
  "convertDoiEarlier allOn sampleLookupText (''10.1000/182'' @ NL @ ''10.1000/183'' @ NL @ ''10.1/none'')
     = \<lparr>doiOut = ''@article{E05,'' @ NL @ ''  author = {A Einstein},'' @ NL @ ''  year = {1905},'' @ NL
                  @ ''  doi = {10.1000/182},'' @ NL @ ''  url = {https://doi.org/10.1000/182}'' @ NL
                  @ ''}'' @ NL @ NL
                  @ ''% Failed DOI: 10.1000/183 (Received unparseable BibTeX.)'' @ NL
                  @ ''% Failed DOI: 10.1/none (Crossref error for 10.1/none: 404)'' @ NL,
        status = ''Converted 1 DOI(s). Failed: 2.''\<rparr>"
  by code_simp

end
